theory Spec2Isabelle
  imports Complex_Main
begin

section \<open>Arrays and errors\<close>

text \<open>
  A two-dimensional numpy array of floats is a list of rows of equal length. Floating
  point numbers are taken as reals: rounding, infinities, NaN and signed zeros are not
  modelled, except where \<open>canny_edge\<close> divides by a zero maximum (see there).
\<close>

type_synonym grid = "real list list"

datatype error = IndexError | ValueError

text \<open>\<open>a.shape\<close> of a two-dimensional array.\<close>

definition shape :: "grid \<Rightarrow> nat \<times> nat" where
  "shape g = (length g, case g of [] \<Rightarrow> 0 | r # _ \<Rightarrow> length r)"

text \<open>The arrays numpy can hold: \<open>M\<close> rows of \<open>N\<close> columns each.\<close>

definition is_grid :: "nat \<Rightarrow> nat \<Rightarrow> grid \<Rightarrow> bool" where
  "is_grid M N g \<longleftrightarrow> length g = M \<and> list_all (\<lambda>r. length r = N) g"

text \<open>\<open>np.zeros((M, N))\<close>.\<close>

definition zeros :: "nat \<Rightarrow> nat \<Rightarrow> grid" where
  "zeros M N = replicate M (replicate N 0)"

text \<open>
  \<open>a[i, j]\<close> with integer indices: an index from \<open>-n\<close> to \<open>-1\<close> counts from the end,
  an index outside \<open>-n .. n-1\<close> raises IndexError.
\<close>

definition norm_index :: "nat \<Rightarrow> int \<Rightarrow> error + nat" where
  "norm_index n i =
     (if i < - int n \<or> int n \<le> i then Inl IndexError
      else Inr (nat (if i < 0 then i + int n else i)))"

definition getitem :: "grid \<Rightarrow> int \<Rightarrow> int \<Rightarrow> error + real" where
  "getitem a i j =
     (case norm_index (fst (shape a)) i of Inl e \<Rightarrow> Inl e
      | Inr r \<Rightarrow> (case norm_index (snd (shape a)) j of Inl e \<Rightarrow> Inl e
         | Inr c \<Rightarrow> Inr (a ! r ! c)))"

text \<open>\<open>a[i, j] = v\<close>, returning the array after the write.\<close>

definition setitem :: "grid \<Rightarrow> int \<Rightarrow> int \<Rightarrow> real \<Rightarrow> error + grid" where
  "setitem a i j v =
     (case norm_index (fst (shape a)) i of Inl e \<Rightarrow> Inl e
      | Inr r \<Rightarrow> (case norm_index (snd (shape a)) j of Inl e \<Rightarrow> Inl e
         | Inr c \<Rightarrow> Inr (a[r := (a ! r)[c := v]])))"

text \<open>\<open>a.max()\<close>: the largest element; an array without elements raises ValueError.\<close>

definition amax :: "grid \<Rightarrow> error + real" where
  "amax a = (case concat a of [] \<Rightarrow> Inl ValueError | x # xs \<Rightarrow> Inr (fold max xs x))"

text \<open>
  \<open>np.where(cond)\<close> on a two-dimensional array: the positions where the condition
  holds, in row-major order (numpy returns the row indices and the column indices as
  two arrays; they are paired here).
\<close>

definition np_where :: "(real \<Rightarrow> bool) \<Rightarrow> grid \<Rightarrow> (nat \<times> nat) list" where
  "np_where P a =
     concat (map (\<lambda>i. map (\<lambda>j. (i, j)) (filter (\<lambda>j. P (a ! i ! j)) [0..<length (a ! i)]))
                 [0..<length a])"

text \<open>\<open>a[rows, cols] = v\<close> for the index arrays of \<open>np.where\<close>.\<close>

definition assign_at :: "grid \<Rightarrow> (nat \<times> nat) list \<Rightarrow> real \<Rightarrow> grid" where
  "assign_at a ps v = fold (\<lambda>(i, j) b. b[i := (b ! i)[j := v]]) ps a"

section \<open>Double threshold\<close>

text \<open>
  \<open>DoubleThreshold(Image, LowRatio, HighRatio, Weak)\<close>: the strong positions are
  written first, the weak positions second, into the same array. The parameter
  \<open>Image\<close> is written \<open>Img\<close> here and below.
\<close>

definition DoubleThreshold :: "grid \<Rightarrow> real \<Rightarrow> real \<Rightarrow> real \<Rightarrow> error + grid" where
  "DoubleThreshold Img LowRatio HighRatio Weak =
     (case amax Img of Inl e \<Rightarrow> Inl e
      | Inr mx \<Rightarrow>
          (let High = mx * HighRatio;
               Low = mx * LowRatio;
               ThresholdedImage = zeros (fst (shape Img)) (snd (shape Img));
               Strong = 255;
               StrongPos = np_where (\<lambda>v. v \<ge> High) Img;
               WeakPos = np_where (\<lambda>v. v \<le> High \<and> v \<ge> Low) Img;
               ThresholdedImage = assign_at ThresholdedImage StrongPos Strong;
               ThresholdedImage = assign_at ThresholdedImage WeakPos Weak
           in Inr ThresholdedImage))"

section \<open>Convolution and the gradient operators\<close>

text \<open>
  \<open>scipy.signal.convolve2d(in1, in2)\<close> with its defaults (mode \<open>full\<close>, boundary
  \<open>fill\<close>, fill value 0), for non-empty arrays: the output has one entry for every
  position at which the two arrays overlap, and \<open>in1\<close> reads as 0 outside its bounds.
\<close>

definition padded :: "grid \<Rightarrow> int \<Rightarrow> int \<Rightarrow> real" where
  "padded a i j =
     (if 0 \<le> i \<and> i < int (fst (shape a)) \<and> 0 \<le> j \<and> j < int (snd (shape a))
      then a ! nat i ! nat j else 0)"

definition convolve2d :: "grid \<Rightarrow> grid \<Rightarrow> grid" where
  "convolve2d in1 in2 =
     (let (M, N) = shape in1; (Kh, Kw) = shape in2
      in map (\<lambda>i. map (\<lambda>j. \<Sum>p\<leftarrow>[0..<Kh]. \<Sum>q\<leftarrow>[0..<Kw].
                         in2 ! p ! q * padded in1 (int i - int p) (int j - int q))
                      [0..<N + Kw - 1])
             [0..<M + Kh - 1])"

text \<open>
  An image is a two-dimensional array of intensities or a three-dimensional array of
  colour pixels. The colour conversion \<open>cv2.cvtColor(image, cv2.COLOR_RGB2GRAY)\<close> is a
  parameter \<open>cvtColor\<close> of every function that calls it.
\<close>

datatype 'c image = Gray2D grid | RGB3D "'c list list"

text \<open>What \<open>apply_kernel\<close> returns: \<open>mag\<close>, or \<open>mag, horizontal_edge, vertical_edge\<close>.\<close>

datatype kernel_result = Mag grid | MagEdges grid grid grid

definition elementwise :: "(real \<Rightarrow> real \<Rightarrow> real) \<Rightarrow> grid \<Rightarrow> grid \<Rightarrow> grid" where
  "elementwise f a b = map2 (map2 f) a b"

definition apply_kernel ::
  "('c list list \<Rightarrow> grid) \<Rightarrow> 'c image \<Rightarrow> grid \<Rightarrow> grid \<Rightarrow> bool \<Rightarrow> kernel_result" where
  "apply_kernel cvtColor img horizontal_kernel vertical_kernel ReturnEdge =
     (let gray = (case img of RGB3D c \<Rightarrow> cvtColor c | Gray2D g \<Rightarrow> g);
          horizontal_edge = convolve2d gray horizontal_kernel;
          vertical_edge = convolve2d gray vertical_kernel;
          mag = elementwise (\<lambda>h v. sqrt (h ^ 2 + v ^ 2)) horizontal_edge vertical_edge
      in if ReturnEdge then MagEdges mag horizontal_edge vertical_edge else Mag mag)"

text \<open>\<open>np.flip\<close> reverses both axes; \<open>.T\<close> is the transpose.\<close>

definition np_flip :: "grid \<Rightarrow> grid" where
  "np_flip a = rev (map rev a)"

definition sobel_horizontal :: grid where
  "sobel_horizontal = [[-1, 0, 1], [-2, 0, 2], [-1, 0, 1]]"

definition sobel_vertical :: grid where
  "sobel_vertical = np_flip (transpose sobel_horizontal)"

text \<open>\<open>np.arctan2(y, x)\<close> on reals; it is 0 where both arguments are 0.\<close>

definition arctan2 :: "real \<Rightarrow> real \<Rightarrow> real" where
  "arctan2 y x =
     (if x > 0 then arctan (y / x)
      else if x < 0 then (if y \<ge> 0 then arctan (y / x) + pi else arctan (y / x) - pi)
      else if y > 0 then pi / 2 else if y < 0 then - pi / 2 else 0)"

text \<open>What \<open>sobel_edge\<close> returns: \<open>mag\<close>, or \<open>mag, Direction\<close>.\<close>

datatype sobel_result = SobelMag grid | SobelMagDir grid grid

definition sobel_edge :: "('c list list \<Rightarrow> grid) \<Rightarrow> 'c image \<Rightarrow> bool \<Rightarrow> sobel_result" where
  "sobel_edge cvtColor img GetDirection =
     (case apply_kernel cvtColor img sobel_horizontal sobel_vertical True of
        MagEdges mag HorizontalEdge VerticalEdge \<Rightarrow>
          if GetDirection then SobelMagDir mag (elementwise arctan2 VerticalEdge HorizontalEdge)
          else SobelMag mag
      | Mag mag \<Rightarrow> SobelMag mag)"

text \<open>The magnitude array among the values \<open>sobel_edge\<close> returns.\<close>

definition magnitude_of :: "sobel_result \<Rightarrow> grid" where
  "magnitude_of res = (case res of SobelMag mag \<Rightarrow> mag | SobelMagDir mag d \<Rightarrow> mag)"

text \<open>
  The kernel rows (or columns) that lie over the image at output row (or column) \<open>i\<close>:
  the positions \<open>p\<close> of a kernel of extent \<open>K\<close> with \<open>i - p\<close> inside an image of extent
  \<open>M\<close>.
\<close>

definition overlap :: "nat \<Rightarrow> nat \<Rightarrow> nat \<Rightarrow> nat list" where
  "overlap K M i = filter (\<lambda>p. p \<le> i \<and> i - p < M) [0..<K]"

text \<open>
  A colour conversion for closed examples: the weights OpenCV documents for
  \<open>COLOR_RGB2GRAY\<close>, on real channels, without rounding to the channel type.
\<close>

definition rgb2gray :: "(real \<times> real \<times> real) list list \<Rightarrow> grid" where
  "rgb2gray c = map (map (\<lambda>(r, g, b). 0.299 * r + 0.587 * g + 0.114 * b)) c"

section \<open>Non-maximum suppression\<close>

text \<open>
  The two neighbours compared with the pixel at \<open>(row, col)\<close>, chosen by the direction
  in degrees; \<open>PI\<close> is the source's constant 180.
\<close>

definition nms_neighbours :: "real \<Rightarrow> int \<Rightarrow> int \<Rightarrow> (int \<times> int) \<times> (int \<times> int)" where
  "nms_neighbours direction row col =
     (let PI = 180 :: real
      in if (0 \<le> direction \<and> direction < PI / 8) \<or> (15 * PI / 8 \<le> direction \<and> direction \<le> 2 * PI)
           then ((row, col - 1), (row, col + 1))
         else if (PI / 8 \<le> direction \<and> direction < 3 * PI / 8)
               \<or> (9 * PI / 8 \<le> direction \<and> direction < 11 * PI / 8)
           then ((row + 1, col - 1), (row - 1, col + 1))
         else if (3 * PI / 8 \<le> direction \<and> direction < 5 * PI / 8)
               \<or> (11 * PI / 8 \<le> direction \<and> direction < 13 * PI / 8)
           then ((row - 1, col), (row + 1, col))
         else ((row - 1, col - 1), (row + 1, col + 1)))"

text \<open>
  The body of the \<open>try\<close> for one pixel: it returns the suppressed image after the
  pixel, or the IndexError of the first failing access. The pixel's own magnitude is
  read once here; the source reads it up to three times, with the same index.
\<close>

definition nms_try :: "grid \<Rightarrow> grid \<Rightarrow> grid \<Rightarrow> nat \<Rightarrow> nat \<Rightarrow> error + grid" where
  "nms_try GradientMagnitude GradientDirection SuppressedImage row col =
     (case getitem GradientDirection (int row) (int col) of Inl e \<Rightarrow> Inl e
      | Inr direction \<Rightarrow>
     (case nms_neighbours direction (int row) (int col) of (before, after) \<Rightarrow>
     (case getitem GradientMagnitude (fst before) (snd before) of Inl e \<Rightarrow> Inl e
      | Inr before_pixel \<Rightarrow>
     (case getitem GradientMagnitude (fst after) (snd after) of Inl e \<Rightarrow> Inl e
      | Inr after_pixel \<Rightarrow>
     (case getitem GradientMagnitude (int row) (int col) of Inl e \<Rightarrow> Inl e
      | Inr centre \<Rightarrow>
          if centre \<ge> before_pixel \<and> centre \<ge> after_pixel
          then setitem SuppressedImage (int row) (int col) centre
          else Inr SuppressedImage)))))"

text \<open>One pixel with its handler: \<open>except IndexError: pass\<close>.\<close>

definition nms_pixel :: "grid \<Rightarrow> grid \<Rightarrow> nat \<Rightarrow> nat \<Rightarrow> grid \<Rightarrow> grid" where
  "nms_pixel GradientMagnitude GradientDirection row col SuppressedImage =
     (case nms_try GradientMagnitude GradientDirection SuppressedImage row col of
        Inl e \<Rightarrow> SuppressedImage
      | Inr S \<Rightarrow> S)"

definition rad2deg :: "real \<Rightarrow> real" where
  "rad2deg x = x * 180 / pi"

definition NonMaximumSuppression :: "grid \<Rightarrow> grid \<Rightarrow> grid" where
  "NonMaximumSuppression GradientMagnitude GradientDirection =
     (let (M, N) = shape GradientMagnitude;
          SuppressedImage = zeros M N;
          GradientDirection = map (map (\<lambda>d. rad2deg d + 180)) GradientDirection
      in fold (\<lambda>row. fold (\<lambda>col. nms_pixel GradientMagnitude GradientDirection row col)
                          [1..<N - 1])
              [1..<M - 1] SuppressedImage)"

section \<open>Hysteresis\<close>

text \<open>
  Hysteresis writes into the array it is given, so arrays live in a store and the
  function takes and returns a reference.
\<close>

type_synonym ref = nat
type_synonym heap = "ref \<Rightarrow> grid"

text \<open>A loop whose body may raise: the first error ends it.\<close>

fun for_each :: "'i list \<Rightarrow> ('i \<Rightarrow> 's \<Rightarrow> error + 's) \<Rightarrow> 's \<Rightarrow> error + 's" where
  "for_each [] body s = Inr s"
| "for_each (x # xs) body s =
     (case body x s of Inl e \<Rightarrow> Inl e | Inr s' \<Rightarrow> for_each xs body s')"

text \<open>The eight neighbours in the order the source tests them.\<close>

definition hyst_neighbours :: "int \<Rightarrow> int \<Rightarrow> (int \<times> int) list" where
  "hyst_neighbours i j =
     [(i + 1, j - 1), (i + 1, j), (i + 1, j + 1), (i, j - 1), (i, j + 1),
      (i - 1, j - 1), (i - 1, j), (i - 1, j + 1)]"

text \<open>The chain of \<open>or\<close>: it stops at the first Strong neighbour or the first error.\<close>

fun any_strong :: "grid \<Rightarrow> real \<Rightarrow> (int \<times> int) list \<Rightarrow> error + bool" where
  "any_strong a Strong [] = Inr False"
| "any_strong a Strong (p # ps) =
     (case getitem a (fst p) (snd p) of Inl e \<Rightarrow> Inl e
      | Inr v \<Rightarrow> if v = Strong then Inr True else any_strong a Strong ps)"

text \<open>The body of the \<open>try\<close> for one Weak pixel.\<close>

definition hyst_try :: "ref \<Rightarrow> real \<Rightarrow> nat \<Rightarrow> nat \<Rightarrow> heap \<Rightarrow> error + heap" where
  "hyst_try Img Strong i j h =
     (case any_strong (h Img) Strong (hyst_neighbours (int i) (int j)) of Inl e \<Rightarrow> Inl e
      | Inr found \<Rightarrow>
          (case setitem (h Img) (int i) (int j) (if found then Strong else 0) of Inl e \<Rightarrow> Inl e
           | Inr a \<Rightarrow> Inr (h(Img := a))))"

text \<open>
  One pixel: the test \<open>Image[i, j] == Weak\<close> is outside the \<open>try\<close>, so its error
  would leave the function; the handler catches IndexError only.
\<close>

definition hyst_pixel :: "ref \<Rightarrow> real \<Rightarrow> real \<Rightarrow> nat \<Rightarrow> nat \<Rightarrow> heap \<Rightarrow> error + heap" where
  "hyst_pixel Img Weak Strong i j h =
     (case getitem (h Img) (int i) (int j) of Inl e \<Rightarrow> Inl e
      | Inr v \<Rightarrow>
          if v = Weak
          then (case hyst_try Img Strong i j h of
                  Inl IndexError \<Rightarrow> Inr h
                | Inl e \<Rightarrow> Inl e
                | Inr h' \<Rightarrow> Inr h')
          else Inr h)"

definition Hysteresis :: "ref \<Rightarrow> real \<Rightarrow> real \<Rightarrow> heap \<Rightarrow> error + ref \<times> heap" where
  "Hysteresis Img Weak Strong h =
     (let (M, N) = shape (h Img)
      in case for_each [1..<M - 1]
                (\<lambda>i. for_each [1..<N - 1] (\<lambda>j. hyst_pixel Img Weak Strong i j)) h of
           Inl e \<Rightarrow> Inl e
         | Inr h' \<Rightarrow> Inr (Img, h'))"

text \<open>
  A call on an array of the caller: the array is put in a store, at reference 0, and
  what the returned reference holds afterwards is read back.
\<close>

definition Hysteresis_of :: "grid \<Rightarrow> real \<Rightarrow> real \<Rightarrow> error + grid" where
  "Hysteresis_of a Weak Strong =
     (case Hysteresis 0 Weak Strong (\<lambda>_. a) of Inl e \<Rightarrow> Inl e | Inr (r, h) \<Rightarrow> Inr (h r))"

section \<open>The Canny pipeline\<close>

text \<open>
  \<open>canny_edge(image)\<close>. \<open>GaussianFilter\<close> comes from the module \<open>LowPass\<close> and is a
  parameter, as \<open>cvtColor\<close> is. Where the largest magnitude is 0, the source computes
  \<open>255.0 / 0\<close>, which numpy evaluates to infinity with a warning, and \<open>0 * inf\<close> makes
  every magnitude NaN; every comparison of \<open>NonMaximumSuppression\<close> with NaN is false,
  so it writes nothing and returns its \<open>np.zeros\<close> array. That case is the first
  branch of \<open>SuppressedImage\<close> below. The call of \<open>sobel_edge\<close> asks for the direction,
  so the case \<open>SobelMag\<close> does not occur.
\<close>

definition canny_edge ::
  "('c list list \<Rightarrow> grid) \<Rightarrow> (grid \<Rightarrow> nat \<Rightarrow> nat \<Rightarrow> grid) \<Rightarrow> 'c list list \<Rightarrow> error + grid" where
  "canny_edge cvtColor GaussianFilter img =
     (let Gray = cvtColor img;
          FilteredImage = GaussianFilter Gray 3 9
      in case sobel_edge cvtColor (Gray2D FilteredImage) True of
           SobelMag mag \<Rightarrow> Inl ValueError
         | SobelMagDir GradientMagnitude GradientDirection \<Rightarrow>
             (case amax GradientMagnitude of Inl e \<Rightarrow> Inl e
              | Inr mx \<Rightarrow>
                  (let SuppressedImage =
                         (if mx = 0
                          then zeros (fst (shape GradientMagnitude)) (snd (shape GradientMagnitude))
                          else NonMaximumSuppression
                                 (map (map (\<lambda>m. m * (255 / mx))) GradientMagnitude)
                                 GradientDirection)
                   in case DoubleThreshold SuppressedImage 0.05 0.09 70 of Inl e \<Rightarrow> Inl e
                      | Inr ThresholdedImage \<Rightarrow> Hysteresis_of ThresholdedImage 70 255)))"

section \<open>The loops without the bounds checks\<close>

text \<open>
  On rectangular arrays no access of the two interior loops fails (proved below), and
  each loop is a fold of an update of one pixel. The properties of the loops are proved
  on these folds.
\<close>

definition nms_step :: "grid \<Rightarrow> grid \<Rightarrow> nat \<Rightarrow> nat \<Rightarrow> grid \<Rightarrow> grid" where
  "nms_step Mg Dr row col S =
     (case nms_neighbours (Dr ! row ! col) (int row) (int col) of (before, after) \<Rightarrow>
        if Mg ! row ! col \<ge> Mg ! nat (fst before) ! nat (snd before)
           \<and> Mg ! row ! col \<ge> Mg ! nat (fst after) ! nat (snd after)
        then S[row := (S ! row)[col := Mg ! row ! col]]
        else S)"

definition hyst_step :: "real \<Rightarrow> real \<Rightarrow> nat \<Rightarrow> nat \<Rightarrow> grid \<Rightarrow> grid" where
  "hyst_step Weak Strong i j a =
     (if a ! i ! j = Weak
      then a[i := (a ! i)[j := (if list_ex (\<lambda>p. a ! nat (fst p) ! nat (snd p) = Strong)
                                          (hyst_neighbours (int i) (int j))
                                then Strong else 0)]]
      else a)"

definition hyst_fold :: "real \<Rightarrow> real \<Rightarrow> grid \<Rightarrow> grid" where
  "hyst_fold Weak Strong a =
     fold (\<lambda>i. fold (\<lambda>j. hyst_step Weak Strong i j) [1..<snd (shape a) - 1])
          [1..<fst (shape a) - 1] a"

text \<open>The outermost rows and columns of an \<open>M \<times> N\<close> array.\<close>

definition border :: "nat \<Rightarrow> nat \<Rightarrow> nat \<Rightarrow> nat \<Rightarrow> bool" where
  "border M N i j \<longleftrightarrow> i = 0 \<or> j = 0 \<or> i + 1 = M \<or> j + 1 = N"

text \<open>An index pair within the bounds of an \<open>M \<times> N\<close> array, without wrap-around.\<close>

definition inside :: "nat \<Rightarrow> nat \<Rightarrow> int \<times> int \<Rightarrow> bool" where
  "inside M N p \<longleftrightarrow> 0 \<le> fst p \<and> fst p < int M \<and> 0 \<le> snd p \<and> snd p < int N"

text \<open>The positions the two interior loops visit, in raster order.\<close>

definition interior :: "nat \<Rightarrow> nat \<Rightarrow> (nat \<times> nat) list" where
  "interior M N = List.product [1..<M - 1] [1..<N - 1]"

definition hyst_steps :: "real \<Rightarrow> real \<Rightarrow> (nat \<times> nat) list \<Rightarrow> grid \<Rightarrow> grid" where
  "hyst_steps Weak Strong ps a = fold (\<lambda>(i, j). hyst_step Weak Strong i j) ps a"

text \<open>The unchecked updates of one pass, over a list of positions.\<close>

definition nms_steps :: "grid \<Rightarrow> grid \<Rightarrow> (nat \<times> nat) list \<Rightarrow> grid \<Rightarrow> grid" where
  "nms_steps Mg Dr ps S = fold (\<lambda>(row, col). nms_step Mg Dr row col) ps S"

text \<open>The direction array after \<open>np.rad2deg\<close> and \<open>+= 180\<close>.\<close>

definition degrees :: "grid \<Rightarrow> grid" where
  "degrees Dr = map (map (\<lambda>d. rad2deg d + 180)) Dr"

text \<open>The array with the same value at every position.\<close>

definition uniform :: "nat \<Rightarrow> nat \<Rightarrow> real \<Rightarrow> grid" where
  "uniform M N v = replicate M (replicate N v)"

text \<open>
  A stand-in for the smoothing filter in closed examples. It returns the image
  unchanged, which is what a smoothing filter returns for the all-zero image.
\<close>

definition no_smoothing :: "grid \<Rightarrow> nat \<Rightarrow> nat \<Rightarrow> grid" where
  "no_smoothing g k s = g"






section \<open>Arrays: basic facts\<close>

lemma norm_index_in: "0 \<le> i \<Longrightarrow> i < int n \<Longrightarrow> norm_index n i = Inr (nat i)"
  by (simp add: norm_index_def)

lemma is_grid_row: "is_grid M N g \<Longrightarrow> i < M \<Longrightarrow> length (g ! i) = N"
  by (auto simp: is_grid_def list_all_length)

lemma is_grid_shape: "is_grid M N g \<Longrightarrow> 0 < M \<Longrightarrow> shape g = (M, N)"
  by (cases g) (auto simp: is_grid_def shape_def)

lemma getitem_in:
  "is_grid M N g \<Longrightarrow> 0 \<le> i \<Longrightarrow> i < int M \<Longrightarrow> 0 \<le> j \<Longrightarrow> j < int N \<Longrightarrow>
   getitem g i j = Inr (g ! nat i ! nat j)"
  using is_grid_shape [of M N g] by (simp add: getitem_def norm_index_in)

lemma setitem_in:
  "is_grid M N g \<Longrightarrow> 0 \<le> i \<Longrightarrow> i < int M \<Longrightarrow> 0 \<le> j \<Longrightarrow> j < int N \<Longrightarrow>
   setitem g i j v = Inr (g[nat i := (g ! nat i)[nat j := v]])"
  using is_grid_shape [of M N g] by (simp add: setitem_def norm_index_in)

lemma is_grid_update: "is_grid M N g \<Longrightarrow> is_grid M N (g[i := (g ! i)[j := v]])"
  unfolding is_grid_def list_all_length
proof (intro conjI allI impI)
  fix n
  assume g: "length g = M \<and> (\<forall>n<length g. length (g ! n) = N)"
    and n: "n < length (g[i := (g ! i)[j := v]])"
  then show "length (g[i := (g ! i)[j := v]] ! n) = N"
    by (cases "n = i") simp_all
qed simp

lemma nth_grid_update:
  "is_grid M N g \<Longrightarrow> i < M \<Longrightarrow> j < N \<Longrightarrow>
   g[a := (g ! a)[b := v]] ! i ! j = (if a = i \<and> b = j then v else g ! i ! j)"
  by (cases "a = i") (simp_all add: is_grid_def list_all_length)

lemma is_grid_zeros: "is_grid M N (zeros M N)"
  by (simp add: is_grid_def zeros_def list_all_length)

lemma nth_zeros: "i < M \<Longrightarrow> j < N \<Longrightarrow> zeros M N ! i ! j = 0"
  by (simp add: zeros_def)

lemma fold_invariant:
  "(\<And>x s. x \<in> set xs \<Longrightarrow> I s \<Longrightarrow> I (f x s)) \<Longrightarrow> I s \<Longrightarrow> I (fold f xs s)"
  by (induction xs arbitrary: s) auto

lemma fold_agree:
  "(\<And>x s. x \<in> set xs \<Longrightarrow> I s \<Longrightarrow> f x s = g x s \<and> I (g x s)) \<Longrightarrow> I s \<Longrightarrow>
   fold f xs s = fold g xs s \<and> I (fold g xs s)"
  by (induction xs arbitrary: s) auto

lemma for_each_fold:
  "(\<And>x s. x \<in> set xs \<Longrightarrow> I s \<Longrightarrow> body x s = Inr (f x s) \<and> I (f x s)) \<Longrightarrow> I s \<Longrightarrow>
   for_each xs body s = Inr (fold f xs s) \<and> I (fold f xs s)"
  by (induction xs arbitrary: s) auto

lemma fold_product:
  "fold (\<lambda>r. fold (\<lambda>c. st r c) cs) rs s = fold (\<lambda>(r, c). st r c) (List.product rs cs) s"
  by (induction rs arbitrary: s) (auto simp: fold_map comp_def)

lemma fold_heap_cell:
  "fold (\<lambda>x (h::heap). h(r := g x (h r))) xs h = h(r := fold g xs (h r))"
  by (induction xs arbitrary: h) auto

section \<open>Hysteresis: the checked loop is the fold\<close>

lemma hyst_neighbours_inside:
  "1 \<le> i \<Longrightarrow> i + 1 < M \<Longrightarrow> 1 \<le> j \<Longrightarrow> j + 1 < N \<Longrightarrow>
   list_all (inside M N) (hyst_neighbours (int i) (int j))"
  by (simp add: hyst_neighbours_def inside_def)

lemma any_strong_in:
  "is_grid M N a \<Longrightarrow> list_all (inside M N) ps \<Longrightarrow>
   any_strong a Strong ps = Inr (list_ex (\<lambda>p. a ! nat (fst p) ! nat (snd p) = Strong) ps)"
  by (induction ps) (auto simp: inside_def getitem_in)

lemma is_grid_hyst_step: "is_grid M N a \<Longrightarrow> is_grid M N (hyst_step Weak Strong i j a)"
  by (simp add: hyst_step_def is_grid_update)

lemma hyst_try_in:
  assumes "is_grid M N (h r)" "1 \<le> i" "i + 1 < M" "1 \<le> j" "j + 1 < N"
  shows "hyst_try r Strong i j h =
         Inr (h(r := (h r)[i := (h r ! i)[j :=
               (if list_ex (\<lambda>p. h r ! nat (fst p) ! nat (snd p) = Strong)
                      (hyst_neighbours (int i) (int j)) then Strong else 0)]]))"
  using assms
  by (simp add: hyst_try_def any_strong_in [OF _ hyst_neighbours_inside] setitem_in [of M N])

lemma hyst_pixel_in:
  assumes "is_grid M N (h r)" "1 \<le> i" "i + 1 < M" "1 \<le> j" "j + 1 < N"
  shows "hyst_pixel r Weak Strong i j h = Inr (h(r := hyst_step Weak Strong i j (h r)))"
  using assms
  by (simp add: hyst_pixel_def hyst_try_in [of M N] getitem_in [of M N] hyst_step_def)

lemma hyst_row_in:
  assumes "is_grid M N (h r)" "1 \<le> i" "i + 1 < M"
  shows "for_each [1..<N - 1] (\<lambda>j. hyst_pixel r Weak Strong i j) h
           = Inr (h(r := fold (\<lambda>j. hyst_step Weak Strong i j) [1..<N - 1] (h r)))
         \<and> is_grid M N (fold (\<lambda>j. hyst_step Weak Strong i j) [1..<N - 1] (h r))"
proof -
  have "for_each [1..<N - 1] (\<lambda>j. hyst_pixel r Weak Strong i j) h
          = Inr (fold (\<lambda>j h. h(r := hyst_step Weak Strong i j (h r))) [1..<N - 1] h)
        \<and> is_grid M N (fold (\<lambda>j h. h(r := hyst_step Weak Strong i j (h r))) [1..<N - 1] h r)"
    using assms
    by (intro for_each_fold [where I = "\<lambda>h. is_grid M N (h r)"])
       (auto simp: hyst_pixel_in [of M N] is_grid_hyst_step)
  then show ?thesis by (simp add: fold_heap_cell)
qed

lemma hyst_rows_in:
  assumes "is_grid M N (h r)"
  shows "for_each [1..<M - 1] (\<lambda>i. for_each [1..<N - 1] (\<lambda>j. hyst_pixel r Weak Strong i j)) h
           = Inr (h(r := fold (\<lambda>i. fold (\<lambda>j. hyst_step Weak Strong i j) [1..<N - 1])
                               [1..<M - 1] (h r)))"
proof -
  let ?f = "\<lambda>i h. h(r := fold (\<lambda>j. hyst_step Weak Strong i j) [1..<N - 1] (h r))"
  have "for_each [1..<M - 1] (\<lambda>i. for_each [1..<N - 1] (\<lambda>j. hyst_pixel r Weak Strong i j)) h
          = Inr (fold ?f [1..<M - 1] h) \<and> is_grid M N (fold ?f [1..<M - 1] h r)"
  proof (rule for_each_fold [where I = "\<lambda>h. is_grid M N (h r)"])
    fix i s
    assume "i \<in> set [1..<M - 1]" and s: "is_grid M N (s r)"
    then have "1 \<le> i" "i + 1 < M" by auto
    from hyst_row_in [where h = s and r = r, OF s this]
    show "for_each [1..<N - 1] (\<lambda>j. hyst_pixel r Weak Strong i j) s = Inr (?f i s)
          \<and> is_grid M N (?f i s r)"
      by simp
  qed (rule assms)
  then show ?thesis
    using fold_heap_cell [where g = "\<lambda>i. fold (\<lambda>j. hyst_step Weak Strong i j) [1..<N - 1]"
                            and r = r and h = h and xs = "[1..<M - 1]"]
    by simp
qed

lemma Hysteresis_fold:
  assumes "is_grid M N (h r)"
  shows "Hysteresis r Weak Strong h = Inr (r, h(r := hyst_fold Weak Strong (h r)))"
proof (cases "M = 0")
  case True
  with assms have "h r = []" by (simp add: is_grid_def)
  then have "h(r := []) = h" by auto
  with \<open>h r = []\<close> show ?thesis
    by (simp add: Hysteresis_def hyst_fold_def shape_def)
next
  case False
  with assms have "shape (h r) = (M, N)" by (simp add: is_grid_shape)
  then show ?thesis
    using hyst_rows_in [where h = h and r = r, OF assms] by (simp add: Hysteresis_def hyst_fold_def)
qed

section \<open>Hysteresis: what one pass changes\<close>

lemma set_interior:
  "(i, j) \<in> set (interior M N) \<longleftrightarrow> 1 \<le> i \<and> i + 1 < M \<and> 1 \<le> j \<and> j + 1 < N"
  by (auto simp: interior_def)

lemma interior_not_border:
  "i < M \<Longrightarrow> j < N \<Longrightarrow> (i, j) \<in> set (interior M N) \<longleftrightarrow> \<not> border M N i j"
  by (auto simp: set_interior border_def)

lemma hyst_fold_steps:
  "is_grid M N a \<Longrightarrow> hyst_fold Weak Strong a = hyst_steps Weak Strong (interior M N) a"
proof (cases "M = 0")
  case True
  assume "is_grid M N a"
  with True have "a = []" by (simp add: is_grid_def)
  with True show ?thesis by (simp add: hyst_fold_def hyst_steps_def interior_def shape_def)
next
  case False
  assume "is_grid M N a"
  with False have "shape a = (M, N)" by (simp add: is_grid_shape)
  then show ?thesis
    by (simp add: hyst_fold_def hyst_steps_def interior_def fold_product)
qed

lemma hyst_step_nth:
  "is_grid M N a \<Longrightarrow> i < M \<Longrightarrow> j < N \<Longrightarrow>
   hyst_step Weak Strong p q a ! i ! j =
     (if p = i \<and> q = j \<and> a ! i ! j = Weak
      then (if list_ex (\<lambda>n. a ! nat (fst n) ! nat (snd n) = Strong)
                 (hyst_neighbours (int i) (int j)) then Strong else 0)
      else a ! i ! j)"
  by (auto simp: hyst_step_def nth_grid_update)

lemma hyst_step_other:
  "is_grid M N a \<Longrightarrow> i < M \<Longrightarrow> j < N \<Longrightarrow> \<not> (p = i \<and> q = j \<and> a ! i ! j = Weak) \<Longrightarrow>
   hyst_step Weak Strong p q a ! i ! j = a ! i ! j"
  by (auto simp: hyst_step_nth [of M N])

lemma hyst_step_binary:
  "is_grid M N a \<Longrightarrow> i < M \<Longrightarrow> j < N \<Longrightarrow> a ! i ! j = 0 \<or> a ! i ! j = Strong \<Longrightarrow>
   hyst_step Weak Strong p q a ! i ! j = 0 \<or> hyst_step Weak Strong p q a ! i ! j = Strong"
  by (simp add: hyst_step_nth [of M N])

lemma is_grid_hyst_steps: "is_grid M N a \<Longrightarrow> is_grid M N (hyst_steps Weak Strong ps a)"
  unfolding hyst_steps_def
  by (rule fold_invariant [where I = "is_grid M N"]) (auto simp: is_grid_hyst_step)

lemma hyst_steps_frame:
  assumes "is_grid M N a" "i < M" "j < N" "(i, j) \<notin> set ps \<or> a ! i ! j \<noteq> Weak"
  shows "hyst_steps Weak Strong ps a ! i ! j = a ! i ! j"
proof -
  have "is_grid M N (hyst_steps Weak Strong ps a)
        \<and> hyst_steps Weak Strong ps a ! i ! j = a ! i ! j"
    unfolding hyst_steps_def
  proof (rule fold_invariant [where I = "\<lambda>b. is_grid M N b \<and> b ! i ! j = a ! i ! j"])
    fix x b
    assume x: "x \<in> set ps" and b: "is_grid M N b \<and> b ! i ! j = a ! i ! j"
    obtain p q where pq: "x = (p, q)" by (cases x)
    from assms(4) x pq have "\<not> (p = i \<and> q = j \<and> b ! i ! j = Weak)"
      using b by auto
    with b assms(2,3) have "hyst_step Weak Strong p q b ! i ! j = b ! i ! j"
      by (intro hyst_step_other [of M N]) simp_all
    with b pq
    show "is_grid M N ((case x of (i, j) \<Rightarrow> hyst_step Weak Strong i j) b)
          \<and> (case x of (i, j) \<Rightarrow> hyst_step Weak Strong i j) b ! i ! j = a ! i ! j"
      by (simp add: is_grid_hyst_step)
  qed (simp add: assms)
  then show ?thesis by simp
qed

lemma hyst_steps_binary:
  assumes "is_grid M N a" "i < M" "j < N" "a ! i ! j = 0 \<or> a ! i ! j = Strong"
  shows "hyst_steps Weak Strong ps a ! i ! j = 0 \<or> hyst_steps Weak Strong ps a ! i ! j = Strong"
proof -
  have "is_grid M N (hyst_steps Weak Strong ps a)
        \<and> (hyst_steps Weak Strong ps a ! i ! j = 0 \<or> hyst_steps Weak Strong ps a ! i ! j = Strong)"
    unfolding hyst_steps_def
  proof (rule fold_invariant
           [where I = "\<lambda>b. is_grid M N b \<and> (b ! i ! j = 0 \<or> b ! i ! j = Strong)"])
    fix x :: "nat \<times> nat" and b
    assume b: "is_grid M N b \<and> (b ! i ! j = 0 \<or> b ! i ! j = Strong)"
    obtain p q where pq: "x = (p, q)" by (cases x)
    from b assms(2,3) have "hyst_step Weak Strong p q b ! i ! j = 0
        \<or> hyst_step Weak Strong p q b ! i ! j = Strong"
      by (intro hyst_step_binary [of M N]) simp_all
    with b pq
    show "is_grid M N ((case x of (i, j) \<Rightarrow> hyst_step Weak Strong i j) b)
          \<and> ((case x of (i, j) \<Rightarrow> hyst_step Weak Strong i j) b ! i ! j = 0
             \<or> (case x of (i, j) \<Rightarrow> hyst_step Weak Strong i j) b ! i ! j = Strong)"
      by (simp add: is_grid_hyst_step)
  qed (simp add: assms)
  then show ?thesis by simp
qed

lemma hyst_steps_weak:
  "is_grid M N a \<Longrightarrow> i < M \<Longrightarrow> j < N \<Longrightarrow> (i, j) \<in> set ps \<Longrightarrow> a ! i ! j = Weak \<Longrightarrow>
   hyst_steps Weak Strong ps a ! i ! j = 0 \<or> hyst_steps Weak Strong ps a ! i ! j = Strong"
proof (induction ps arbitrary: a)
  case Nil
  then show ?case by simp
next
  case (Cons x ps)
  obtain p q where pq: "x = (p, q)" by (cases x)
  let ?b = "hyst_step Weak Strong p q a"
  have b: "is_grid M N ?b" using Cons.prems(1) by (rule is_grid_hyst_step)
  have unfold: "hyst_steps Weak Strong (x # ps) a = hyst_steps Weak Strong ps ?b"
    by (simp add: hyst_steps_def pq)
  show ?case
  proof (cases "p = i \<and> q = j")
    case True
    with Cons.prems have "?b ! i ! j = 0 \<or> ?b ! i ! j = Strong"
      by (simp add: hyst_step_nth [of M N])
    from hyst_steps_binary [OF b Cons.prems(2,3) this] show ?thesis
      by (simp add: unfold)
  next
    case False
    with Cons.prems pq have "(i, j) \<in> set ps" by auto
    moreover from False Cons.prems have "?b ! i ! j = Weak"
      by (simp add: hyst_step_other [of M N])
    ultimately show ?thesis
      using Cons.IH [OF b Cons.prems(2,3)] by (simp add: unfold)
  qed
qed

lemma hyst_steps_no_weak:
  assumes "is_grid M N a" "\<forall>i<M. \<forall>j<N. a ! i ! j \<noteq> Weak"
    and "\<forall>(p, q)\<in>set ps. p < M \<and> q < N"
  shows "hyst_steps Weak Strong ps a = a"
  unfolding hyst_steps_def
  using assms(3) by (intro fold_invariant [where I = "\<lambda>b. b = a"])
    (use assms(2) in \<open>auto simp: hyst_step_def\<close>)

section \<open>Hysteresis: the raster order of one pass\<close>













section \<open>Non-maximum suppression: the checked loop is the fold\<close>

lemma nms_neighbours_inside:
  assumes "1 \<le> row" "row + 1 < M" "1 \<le> col" "col + 1 < N"
  shows "inside M N (fst (nms_neighbours d (int row) (int col)))
         \<and> inside M N (snd (nms_neighbours d (int row) (int col)))"
  using assms by (simp add: nms_neighbours_def inside_def)

lemma nms_try_in:
  assumes "is_grid M N Mg" "is_grid M N Dr" "is_grid M N S"
    and "1 \<le> row" "row + 1 < M" "1 \<le> col" "col + 1 < N"
  shows "nms_try Mg Dr S row col = Inr (nms_step Mg Dr row col S)"
proof -
  obtain before after where ba: "nms_neighbours (Dr ! row ! col) (int row) (int col) = (before, after)"
    by (cases "nms_neighbours (Dr ! row ! col) (int row) (int col)")
  from nms_neighbours_inside [OF assms(4-7), of "Dr ! row ! col"] ba
  have "inside M N before" "inside M N after" by simp_all
  then have "getitem Mg (fst before) (snd before) = Inr (Mg ! nat (fst before) ! nat (snd before))"
    "getitem Mg (fst after) (snd after) = Inr (Mg ! nat (fst after) ! nat (snd after))"
    using assms(1) by (simp_all add: inside_def getitem_in [of M N])
  moreover have "getitem Dr (int row) (int col) = Inr (Dr ! row ! col)"
    "getitem Mg (int row) (int col) = Inr (Mg ! row ! col)"
    "setitem S (int row) (int col) v = Inr (S[row := (S ! row)[col := v]])" for v
    using assms by (simp_all add: getitem_in [of M N] setitem_in [of M N])
  ultimately show ?thesis
    by (simp add: nms_try_def nms_step_def ba)
qed

lemma is_grid_nms_step: "is_grid M N S \<Longrightarrow> is_grid M N (nms_step Mg Dr row col S)"
  by (simp add: nms_step_def is_grid_update split: prod.splits)

lemma nms_pixel_in:
  assumes "is_grid M N Mg" "is_grid M N Dr" "is_grid M N S"
    and "1 \<le> row" "row + 1 < M" "1 \<le> col" "col + 1 < N"
  shows "nms_pixel Mg Dr row col S = nms_step Mg Dr row col S"
  by (simp add: nms_pixel_def nms_try_in [OF assms])

lemma is_grid_degrees: "is_grid M N Dr \<Longrightarrow> is_grid M N (degrees Dr)"
  by (simp add: is_grid_def degrees_def list_all_length)

lemma is_grid_nms_steps: "is_grid M N S \<Longrightarrow> is_grid M N (nms_steps Mg Dr ps S)"
  unfolding nms_steps_def
  by (rule fold_invariant [where I = "is_grid M N"]) (auto simp: is_grid_nms_step)

lemma nms_row_in:
  assumes "is_grid M N Mg" "is_grid M N Dr" "is_grid M N S" "1 \<le> row" "row + 1 < M"
  shows "fold (\<lambda>col. nms_pixel Mg Dr row col) [1..<N - 1] S
           = fold (\<lambda>col. nms_step Mg Dr row col) [1..<N - 1] S
         \<and> is_grid M N (fold (\<lambda>col. nms_step Mg Dr row col) [1..<N - 1] S)"
proof (rule fold_agree [where I = "is_grid M N"])
  fix col T
  assume "col \<in> set [1..<N - 1]" and T: "is_grid M N T"
  then have "1 \<le> col" "col + 1 < N" by auto
  from nms_pixel_in [OF assms(1,2) T assms(4,5) this] T
  show "nms_pixel Mg Dr row col T = nms_step Mg Dr row col T
        \<and> is_grid M N (nms_step Mg Dr row col T)"
    by (simp add: is_grid_nms_step)
qed (rule assms)

lemma nms_rows_in:
  assumes "is_grid M N Mg" "is_grid M N Dr" "is_grid M N S"
  shows "fold (\<lambda>row. fold (\<lambda>col. nms_pixel Mg Dr row col) [1..<N - 1]) [1..<M - 1] S
           = nms_steps Mg Dr (interior M N) S"
proof -
  let ?g = "\<lambda>row. fold (\<lambda>col. nms_step Mg Dr row col) [1..<N - 1]"
  have "fold (\<lambda>row. fold (\<lambda>col. nms_pixel Mg Dr row col) [1..<N - 1]) [1..<M - 1] S
          = fold ?g [1..<M - 1] S \<and> is_grid M N (fold ?g [1..<M - 1] S)"
  proof (rule fold_agree [where I = "is_grid M N"])
    fix row T
    assume "row \<in> set [1..<M - 1]" and T: "is_grid M N T"
    then have "1 \<le> row" "row + 1 < M" by auto
    from nms_row_in [OF assms(1,2) T this]
    show "fold (\<lambda>col. nms_pixel Mg Dr row col) [1..<N - 1] T = ?g row T \<and> is_grid M N (?g row T)" .
  qed (rule assms)
  then show ?thesis
    by (simp add: nms_steps_def interior_def fold_product)
qed

lemma NonMaximumSuppression_steps:
  assumes "is_grid M N Mg" "is_grid M N Dr"
  shows "NonMaximumSuppression Mg Dr = nms_steps Mg (degrees Dr) (interior M N) (zeros M N)"
proof (cases "M = 0")
  case True
  with assms have "Mg = []" by (simp add: is_grid_def)
  with True show ?thesis
    by (simp add: NonMaximumSuppression_def nms_steps_def interior_def shape_def zeros_def)
next
  case False
  with assms have "shape Mg = (M, N)" by (simp add: is_grid_shape)
  then show ?thesis
    using nms_rows_in [OF assms(1) is_grid_degrees [OF assms(2)] is_grid_zeros]
    by (simp add: NonMaximumSuppression_def degrees_def)
qed

lemma nms_step_nth:
  "is_grid M N S \<Longrightarrow> i < M \<Longrightarrow> j < N \<Longrightarrow>
   nms_step Mg Dr row col S ! i ! j = S ! i ! j
   \<or> (row = i \<and> col = j \<and> nms_step Mg Dr row col S ! i ! j = Mg ! i ! j)"
  by (auto simp: nms_step_def nth_grid_update split: prod.splits)

lemma nms_steps_keep_or_zero:
  assumes "is_grid M N S" "i < M" "j < N" "S ! i ! j = Mg ! i ! j \<or> S ! i ! j = 0"
  shows "nms_steps Mg Dr ps S ! i ! j = Mg ! i ! j \<or> nms_steps Mg Dr ps S ! i ! j = 0"
proof -
  have "is_grid M N (nms_steps Mg Dr ps S)
        \<and> (nms_steps Mg Dr ps S ! i ! j = Mg ! i ! j \<or> nms_steps Mg Dr ps S ! i ! j = 0)"
    unfolding nms_steps_def
  proof (rule fold_invariant
           [where I = "\<lambda>T. is_grid M N T \<and> (T ! i ! j = Mg ! i ! j \<or> T ! i ! j = 0)"])
    fix x :: "nat \<times> nat" and T
    assume T: "is_grid M N T \<and> (T ! i ! j = Mg ! i ! j \<or> T ! i ! j = 0)"
    obtain p q where pq: "x = (p, q)" by (cases x)
    from T assms(2,3) nms_step_nth [of M N T i j Mg Dr p q]
    have "nms_step Mg Dr p q T ! i ! j = Mg ! i ! j \<or> nms_step Mg Dr p q T ! i ! j = 0"
      by auto
    with T pq
    show "is_grid M N ((case x of (row, col) \<Rightarrow> nms_step Mg Dr row col) T)
          \<and> ((case x of (row, col) \<Rightarrow> nms_step Mg Dr row col) T ! i ! j = Mg ! i ! j
             \<or> (case x of (row, col) \<Rightarrow> nms_step Mg Dr row col) T ! i ! j = 0)"
      by (simp add: is_grid_nms_step)
  qed (simp add: assms)
  then show ?thesis by simp
qed

lemma nms_steps_untouched:
  assumes "is_grid M N S" "i < M" "j < N" "(i, j) \<notin> set ps"
  shows "nms_steps Mg Dr ps S ! i ! j = S ! i ! j"
proof -
  have "is_grid M N (nms_steps Mg Dr ps S) \<and> nms_steps Mg Dr ps S ! i ! j = S ! i ! j"
    unfolding nms_steps_def
  proof (rule fold_invariant [where I = "\<lambda>T. is_grid M N T \<and> T ! i ! j = S ! i ! j"])
    fix x T
    assume x: "x \<in> set ps" and T: "is_grid M N T \<and> T ! i ! j = S ! i ! j"
    obtain p q where pq: "x = (p, q)" by (cases x)
    with x assms(4) have "\<not> (p = i \<and> q = j)" by auto
    with T assms(2,3) nms_step_nth [of M N T i j Mg Dr p q]
    have "nms_step Mg Dr p q T ! i ! j = S ! i ! j" by auto
    with T pq
    show "is_grid M N ((case x of (row, col) \<Rightarrow> nms_step Mg Dr row col) T)
          \<and> (case x of (row, col) \<Rightarrow> nms_step Mg Dr row col) T ! i ! j = S ! i ! j"
      by (simp add: is_grid_nms_step)
  qed (simp add: assms)
  then show ?thesis by simp
qed

section \<open>Convolution: shape and entries\<close>

lemma convolve2d_shape:
  assumes "is_grid M N a" "0 < M" "is_grid Kh Kw k" "0 < Kh"
  shows "is_grid (M + Kh - 1) (N + Kw - 1) (convolve2d a k)"
  using is_grid_shape [OF assms(1,2)] is_grid_shape [OF assms(3,4)]
  by (simp add: convolve2d_def is_grid_def list_all_length)

lemma convolve2d_nth:
  assumes "is_grid M N a" "0 < M" "is_grid Kh Kw k" "0 < Kh"
    and "i < M + Kh - 1" "j < N + Kw - 1"
  shows "convolve2d a k ! i ! j =
           (\<Sum>p\<leftarrow>[0..<Kh]. \<Sum>q\<leftarrow>[0..<Kw]. k ! p ! q * padded a (int i - int p) (int j - int q))"
  using is_grid_shape [OF assms(1,2)] is_grid_shape [OF assms(3,4)] assms(5,6)
  by (simp add: convolve2d_def)

lemma padded_overlap:
  assumes "is_grid M N a" "0 < M"
  shows "padded a (int i - int p) (int j - int q) =
           (if p \<le> i \<and> i - p < M \<and> q \<le> j \<and> j - q < N then a ! (i - p) ! (j - q) else 0)"
proof -
  have "nat (int i - int p) = i - p" "nat (int j - int q) = j - q" by simp_all
  moreover have "0 \<le> int i - int p \<and> int i - int p < int M \<longleftrightarrow> p \<le> i \<and> i - p < M" by auto
  moreover have "0 \<le> int j - int q \<and> int j - int q < int N \<longleftrightarrow> q \<le> j \<and> j - q < N" by auto
  ultimately show ?thesis
    using is_grid_shape [OF assms] by (auto simp: padded_def)
qed

lemma convolve2d_overlap:
  assumes "is_grid M N a" "0 < M" "is_grid Kh Kw k" "0 < Kh"
    and "i < M + Kh - 1" "j < N + Kw - 1"
  shows "convolve2d a k ! i ! j =
           (\<Sum>p\<leftarrow>overlap Kh M i. \<Sum>q\<leftarrow>overlap Kw N j. k ! p ! q * a ! (i - p) ! (j - q))"
proof -
  let ?t = "\<lambda>p q. k ! p ! q * padded a (int i - int p) (int j - int q)"
  have inner: "(\<Sum>q\<leftarrow>[0..<Kw]. ?t p q)
      = (if p \<le> i \<and> i - p < M then \<Sum>q\<leftarrow>overlap Kw N j. k ! p ! q * a ! (i - p) ! (j - q) else 0)"
    for p
  proof (cases "p \<le> i \<and> i - p < M")
    case True
    have "(\<Sum>q\<leftarrow>overlap Kw N j. ?t p q) = (\<Sum>q\<leftarrow>[0..<Kw]. ?t p q)"
      unfolding overlap_def
      by (rule sum_list_map_filter) (auto simp: padded_overlap [OF assms(1,2)])
    moreover have "map (\<lambda>q. ?t p q) (overlap Kw N j)
        = map (\<lambda>q. k ! p ! q * a ! (i - p) ! (j - q)) (overlap Kw N j)"
      using True
      by (intro map_cong [OF refl]) (simp add: padded_overlap [OF assms(1,2)] overlap_def)
    ultimately show ?thesis using True by simp
  next
    case False
    then have pz: "padded a (int i - int p) (int j - int q) = 0" for q
      by (auto simp: padded_overlap [OF assms(1,2)])
    from False show ?thesis by (auto simp: pz)
  qed
  have "(\<Sum>p\<leftarrow>overlap Kh M i. \<Sum>q\<leftarrow>[0..<Kw]. ?t p q) = (\<Sum>p\<leftarrow>[0..<Kh]. \<Sum>q\<leftarrow>[0..<Kw]. ?t p q)"
    unfolding overlap_def
    by (rule sum_list_map_filter) (auto simp: inner)
  moreover have "map (\<lambda>p. \<Sum>q\<leftarrow>[0..<Kw]. ?t p q) (overlap Kh M i)
      = map (\<lambda>p. \<Sum>q\<leftarrow>overlap Kw N j. k ! p ! q * a ! (i - p) ! (j - q)) (overlap Kh M i)"
    by (rule map_cong [OF refl]) (simp add: inner overlap_def)
  ultimately show ?thesis
    by (simp add: convolve2d_nth [OF assms])
qed

lemma is_grid_elementwise:
  "is_grid M N a \<Longrightarrow> is_grid M N b \<Longrightarrow> is_grid M N (elementwise f a b)"
  by (simp add: is_grid_def elementwise_def list_all_length)

lemma elementwise_nth:
  "is_grid M N a \<Longrightarrow> is_grid M N b \<Longrightarrow> i < M \<Longrightarrow> j < N \<Longrightarrow>
   elementwise f a b ! i ! j = f (a ! i ! j) (b ! i ! j)"
  by (simp add: is_grid_def elementwise_def list_all_length)

lemma sobel_vertical_eq: "sobel_vertical = [[1, 2, 1], [0, 0, 0], [-1, -2, -1]]"
  by (simp add: sobel_vertical_def sobel_horizontal_def np_flip_def)

lemmas conv_eval = sobel_edge_def apply_kernel_def convolve2d_def padded_def shape_def
  elementwise_def sobel_horizontal_def sobel_vertical_eq magnitude_of_def

lemma sobel_constant_grid:
  "magnitude_of (sobel_edge cvt (Gray2D (replicate 4 (replicate 4 c))) GetDirection) =
     [[sqrt (2 * (c * c)), sqrt (10 * (c * c)), \<bar>4 * c\<bar>, \<bar>4 * c\<bar>,
       sqrt (10 * (c * c)), sqrt (2 * (c * c))],
      [sqrt (10 * (c * c)), sqrt (18 * (c * c)), \<bar>4 * c\<bar>, \<bar>4 * c\<bar>,
       sqrt (18 * (c * c)), sqrt (10 * (c * c))],
      [sqrt (16 * (c * c)), sqrt (16 * (c * c)), 0, 0, sqrt (16 * (c * c)),
       sqrt (16 * (c * c))],
      [sqrt (16 * (c * c)), sqrt (16 * (c * c)), 0, 0, sqrt (16 * (c * c)),
       sqrt (16 * (c * c))],
      [sqrt (10 * (c * c)), sqrt (18 * (c * c)), \<bar>4 * c\<bar>, \<bar>4 * c\<bar>,
       sqrt (18 * (c * c)), sqrt (10 * (c * c))],
      [sqrt (2 * (c * c)), sqrt (10 * (c * c)), \<bar>4 * c\<bar>, \<bar>4 * c\<bar>,
       sqrt (10 * (c * c)), sqrt (2 * (c * c))]]"
  by (simp add: conv_eval numeral_eq_Suc upt_conv_Cons)

section \<open>The pipeline on an all-zero image\<close>

lemma grid_eqI:
  assumes "is_grid M N a" "is_grid M N b" "\<And>i j. i < M \<Longrightarrow> j < N \<Longrightarrow> a ! i ! j = b ! i ! j"
  shows "a = b"
proof (rule nth_equalityI)
  show "length a = length b" using assms(1,2) by (simp add: is_grid_def)
next
  fix i assume "i < length a"
  then have i: "i < M" using assms(1) by (simp add: is_grid_def)
  show "a ! i = b ! i"
  proof (rule nth_equalityI)
    show "length (a ! i) = length (b ! i)"
      using assms(1,2) i by (simp add: is_grid_row)
  next
    fix j assume "j < length (a ! i)"
    then have "j < N" using assms(1) i by (simp add: is_grid_row)
    with i show "a ! i ! j = b ! i ! j" by (rule assms(3))
  qed
qed

lemma is_grid_uniform: "is_grid M N (uniform M N v)"
  by (simp add: is_grid_def uniform_def list_all_length)

lemma nth_uniform: "i < M \<Longrightarrow> j < N \<Longrightarrow> uniform M N v ! i ! j = v"
  by (simp add: uniform_def)

lemma zeros_uniform: "zeros M N = uniform M N 0"
  by (simp add: zeros_def uniform_def)

lemma convolve2d_zeros:
  assumes "0 < M" "is_grid Kh Kw k" "0 < Kh"
  shows "convolve2d (zeros M N) k = zeros (M + Kh - 1) (N + Kw - 1)"
proof (rule grid_eqI)
  show "is_grid (M + Kh - 1) (N + Kw - 1) (convolve2d (zeros M N) k)"
    by (rule convolve2d_shape [OF is_grid_zeros assms])
  show "is_grid (M + Kh - 1) (N + Kw - 1) (zeros (M + Kh - 1) (N + Kw - 1))"
    by (rule is_grid_zeros)
next
  fix i j assume ij: "i < M + Kh - 1" "j < N + Kw - 1"
  have "padded (zeros M N) x y = 0" for x y
    using is_grid_shape [OF is_grid_zeros assms(1), of N]
    by (auto simp: padded_def intro!: nth_zeros)
  then show "convolve2d (zeros M N) k ! i ! j = zeros (M + Kh - 1) (N + Kw - 1) ! i ! j"
    using ij by (simp add: convolve2d_nth [OF is_grid_zeros assms ij] nth_zeros)
qed

lemma elementwise_zeros:
  assumes "f 0 0 = 0"
  shows "elementwise f (zeros M N) (zeros M N) = zeros M N"
  by (rule grid_eqI [OF is_grid_elementwise [OF is_grid_zeros is_grid_zeros] is_grid_zeros])
     (simp add: elementwise_nth [OF is_grid_zeros is_grid_zeros] nth_zeros assms)

lemma is_grid_sobel_kernels: "is_grid 3 3 sobel_horizontal" "is_grid 3 3 sobel_vertical"
  by (simp_all add: sobel_vertical_eq sobel_horizontal_def is_grid_def)

lemma sobel_edge_zeros:
  assumes "0 < M"
  shows "sobel_edge cvt (Gray2D (zeros M N)) True
           = SobelMagDir (zeros (M + 2) (N + 2)) (zeros (M + 2) (N + 2))"
proof -
  have "elementwise (\<lambda>h v. sqrt (h ^ 2 + v ^ 2)) (zeros (M + 2) (N + 2)) (zeros (M + 2) (N + 2))
          = zeros (M + 2) (N + 2)"
    by (rule elementwise_zeros) simp
  moreover have "elementwise arctan2 (zeros (M + 2) (N + 2)) (zeros (M + 2) (N + 2))
          = zeros (M + 2) (N + 2)"
    by (rule elementwise_zeros) (simp add: arctan2_def)
  ultimately show ?thesis
    using convolve2d_zeros [OF assms is_grid_sobel_kernels(1), of N]
      convolve2d_zeros [OF assms is_grid_sobel_kernels(2), of N]
    by (simp add: sobel_edge_def apply_kernel_def Let_def)
qed

lemma amax_uniform:
  assumes "0 < M" "0 < N"
  shows "amax (uniform M N v) = Inr v"
proof -
  have all: "\<forall>y\<in>set (concat (uniform M N v)). y = v"
    by (auto simp: uniform_def)
  have "concat (uniform M N v) \<noteq> []"
    using assms by (cases M; cases N) (simp_all add: uniform_def)
  then obtain x xs where c: "concat (uniform M N v) = x # xs"
    by (cases "concat (uniform M N v)") auto
  with all have "x = v" "\<forall>y\<in>set xs. y = v" by auto
  moreover have "\<forall>y\<in>set ys. y = v \<Longrightarrow> fold max ys v = v" for ys
    by (induction ys) simp_all
  ultimately show ?thesis by (simp add: amax_def c)
qed

lemma is_grid_assign_at: "is_grid M N a \<Longrightarrow> is_grid M N (assign_at a ps v)"
  unfolding assign_at_def
  by (rule fold_invariant [where I = "is_grid M N"]) (auto simp: is_grid_update)

lemma assign_at_nth:
  "is_grid M N a \<Longrightarrow> i < M \<Longrightarrow> j < N \<Longrightarrow>
   assign_at a ps v ! i ! j = (if (i, j) \<in> set ps then v else a ! i ! j)"
proof (induction ps arbitrary: a)
  case Nil
  then show ?case by (simp add: assign_at_def)
next
  case (Cons p ps)
  obtain x y where p: "p = (x, y)" by (cases p)
  let ?b = "a[x := (a ! x)[y := v]]"
  have b: "is_grid M N ?b" using Cons.prems(1) by (rule is_grid_update)
  have step: "assign_at a (p # ps) v = assign_at ?b ps v"
    by (simp add: assign_at_def p)
  have "assign_at ?b ps v ! i ! j = (if (i, j) \<in> set ps then v else ?b ! i ! j)"
    by (rule Cons.IH [OF b Cons.prems(2,3)])
  moreover have "?b ! i ! j = (if x = i \<and> y = j then v else a ! i ! j)"
    by (rule nth_grid_update [OF Cons.prems])
  ultimately show ?case
    unfolding step by (auto simp: p)
qed

lemma set_np_where:
  "is_grid M N a \<Longrightarrow> i < M \<Longrightarrow> j < N \<Longrightarrow> (i, j) \<in> set (np_where P a) \<longleftrightarrow> P (a ! i ! j)"
  by (auto simp: np_where_def is_grid_def list_all_length)

lemma DoubleThreshold_nth:
  assumes "is_grid M N a" "0 < M" "amax a = Inr mx"
  shows "\<exists>T. DoubleThreshold a LowRatio HighRatio Weak = Inr T \<and> is_grid M N T
           \<and> (\<forall>i<M. \<forall>j<N. T ! i ! j =
                 (if a ! i ! j \<le> mx * HighRatio \<and> a ! i ! j \<ge> mx * LowRatio then Weak
                  else if a ! i ! j \<ge> mx * HighRatio then 255 else 0))"
proof -
  let ?S = "assign_at (zeros M N) (np_where (\<lambda>v. v \<ge> mx * HighRatio) a) 255"
  let ?T = "assign_at ?S (np_where (\<lambda>v. v \<le> mx * HighRatio \<and> v \<ge> mx * LowRatio) a) Weak"
  have S: "is_grid M N ?S" by (rule is_grid_assign_at [OF is_grid_zeros])
  have T: "is_grid M N ?T" by (rule is_grid_assign_at [OF S])
  have "DoubleThreshold a LowRatio HighRatio Weak = Inr ?T"
    using is_grid_shape [OF assms(1,2)] by (simp add: DoubleThreshold_def assms(3) Let_def)
  moreover have "?T ! i ! j =
       (if a ! i ! j \<le> mx * HighRatio \<and> a ! i ! j \<ge> mx * LowRatio then Weak
        else if a ! i ! j \<ge> mx * HighRatio then 255 else 0)" if "i < M" "j < N" for i j
    using that
    by (simp add: assign_at_nth [OF S] assign_at_nth [OF is_grid_zeros]
        set_np_where [OF assms(1)] nth_zeros)
  ultimately show ?thesis using T by simp
qed

lemma DoubleThreshold_zeros:
  assumes "0 < M" "0 < N"
  shows "DoubleThreshold (zeros M N) LowRatio HighRatio Weak = Inr (uniform M N Weak)"
proof -
  from DoubleThreshold_nth [OF is_grid_zeros assms(1), of N 0 LowRatio HighRatio Weak]
    amax_uniform [OF assms, of 0]
  obtain T where T: "DoubleThreshold (zeros M N) LowRatio HighRatio Weak = Inr T"
    "is_grid M N T"
    and nth: "\<forall>i<M. \<forall>j<N. T ! i ! j =
                 (if zeros M N ! i ! j \<le> 0 * HighRatio \<and> zeros M N ! i ! j \<ge> 0 * LowRatio then Weak
                  else if zeros M N ! i ! j \<ge> 0 * HighRatio then 255 else 0)"
    by (auto simp: zeros_uniform)
  have "T = uniform M N Weak"
    by (rule grid_eqI [OF T(2) is_grid_uniform]) (simp add: nth nth_zeros nth_uniform)
  with T(1) show ?thesis by simp
qed

lemma Hysteresis_of_fold:
  assumes "is_grid M N a"
  shows "Hysteresis_of a Weak Strong = Inr (hyst_steps Weak Strong (interior M N) a)"
  using Hysteresis_fold [where h = "\<lambda>_. a" and r = 0 and M = M and N = N, OF assms]
  by (simp add: Hysteresis_of_def hyst_fold_steps [OF assms])

lemma no_strong_neighbour:
  assumes "is_grid M N a" "\<forall>i<M. \<forall>j<N. a ! i ! j \<noteq> Strong" "list_all (inside M N) ps"
  shows "\<not> list_ex (\<lambda>p. a ! nat (fst p) ! nat (snd p) = Strong) ps"
proof
  assume "list_ex (\<lambda>p. a ! nat (fst p) ! nat (snd p) = Strong) ps"
  then obtain p where p: "p \<in> set ps" "a ! nat (fst p) ! nat (snd p) = Strong"
    by (auto simp: list_ex_iff)
  with assms(3) have "nat (fst p) < M" "nat (snd p) < N"
    by (auto simp: list_all_iff inside_def)
  with assms(2) p(2) show False by blast
qed

lemma hyst_steps_no_strong:
  assumes "is_grid M N a" "\<forall>i<M. \<forall>j<N. a ! i ! j \<noteq> Strong" "Strong \<noteq> 0"
    and "set ps \<subseteq> set (interior M N)"
  shows "\<forall>i<M. \<forall>j<N. hyst_steps Weak Strong ps a ! i ! j \<noteq> Strong"
proof -
  have "is_grid M N (hyst_steps Weak Strong ps a)
        \<and> (\<forall>i<M. \<forall>j<N. hyst_steps Weak Strong ps a ! i ! j \<noteq> Strong)"
    unfolding hyst_steps_def
  proof (rule fold_invariant
           [where I = "\<lambda>b. is_grid M N b \<and> (\<forall>i<M. \<forall>j<N. b ! i ! j \<noteq> Strong)"])
    fix x b
    assume x: "x \<in> set ps" and b: "is_grid M N b \<and> (\<forall>i<M. \<forall>j<N. b ! i ! j \<noteq> Strong)"
    obtain p q where pq: "x = (p, q)" by (cases x)
    with x assms(4) have "1 \<le> p" "p + 1 < M" "1 \<le> q" "q + 1 < N"
      by (auto simp: set_interior)
    from hyst_neighbours_inside [OF this] b
    have none: "\<not> list_ex (\<lambda>n. b ! nat (fst n) ! nat (snd n) = Strong)
                    (hyst_neighbours (int p) (int q))"
      by (intro no_strong_neighbour [of M N]) simp_all
    have "hyst_step Weak Strong p q b ! i ! j \<noteq> Strong" if "i < M" "j < N" for i j
    proof (cases "p = i \<and> q = j \<and> b ! i ! j = Weak")
      case True
      with b that none assms(3) show ?thesis
        by (simp add: hyst_step_nth [of M N])
    next
      case False
      with b that show ?thesis by (simp add: hyst_step_other [of M N])
    qed
    with b pq
    show "is_grid M N ((case x of (i, j) \<Rightarrow> hyst_step Weak Strong i j) b)
          \<and> (\<forall>i<M. \<forall>j<N. (case x of (i, j) \<Rightarrow> hyst_step Weak Strong i j) b ! i ! j \<noteq> Strong)"
      by (simp add: is_grid_hyst_step)
  qed (simp add: assms)
  then show ?thesis by simp
qed

lemma Hysteresis_of_uniform:
  assumes "Weak \<noteq> Strong" "Strong \<noteq> 0"
  shows "\<exists>E. Hysteresis_of (uniform M N Weak) Weak Strong = Inr E \<and> is_grid M N E
           \<and> (\<forall>i<M. \<forall>j<N. E ! i ! j = (if border M N i j then Weak else 0))"
proof -
  let ?a = "uniform M N Weak"
  let ?E = "hyst_steps Weak Strong (interior M N) ?a"
  have a: "is_grid M N ?a" by (rule is_grid_uniform)
  have ns: "\<forall>i<M. \<forall>j<N. ?a ! i ! j \<noteq> Strong"
    using assms(1) by (simp add: nth_uniform)
  have "?E ! i ! j = (if border M N i j then Weak else 0)" if ij: "i < M" "j < N" for i j
  proof (cases "border M N i j")
    case True
    with ij have "?E ! i ! j = ?a ! i ! j"
      by (intro hyst_steps_frame [OF a]) (simp_all add: interior_not_border)
    with True ij show ?thesis by (simp add: nth_uniform)
  next
    case False
    with ij have "?E ! i ! j = 0 \<or> ?E ! i ! j = Strong"
      by (intro hyst_steps_weak [OF a]) (simp_all add: interior_not_border nth_uniform)
    moreover from hyst_steps_no_strong [OF a ns assms(2) subset_refl, of Weak] ij
    have "?E ! i ! j \<noteq> Strong" by simp
    ultimately show ?thesis using False by simp
  qed
  then show ?thesis
    by (simp add: Hysteresis_of_fold [OF a] is_grid_hyst_steps [OF a])
qed

lemma canny_edge_zeros:
  assumes "cvtColor img = zeros M N" "GaussianFilter (zeros M N) 3 9 = zeros M N"
    and "0 < M" "0 < N"
  shows "canny_edge cvtColor GaussianFilter img = Hysteresis_of (uniform (M + 2) (N + 2) 70) 70 255"
proof -
  have "amax (zeros (M + 2) (N + 2)) = Inr 0"
    using amax_uniform [of "M + 2" "N + 2" 0] by (simp add: zeros_uniform)
  moreover have "shape (zeros (M + 2) (N + 2)) = (M + 2, N + 2)"
    by (rule is_grid_shape [OF is_grid_zeros]) simp
  moreover have "DoubleThreshold (zeros (M + 2) (N + 2)) 0.05 0.09 70
                   = Inr (uniform (M + 2) (N + 2) 70)"
    by (rule DoubleThreshold_zeros) simp_all
  ultimately show ?thesis
    by (simp add: canny_edge_def assms(1,2) sobel_edge_zeros [OF assms(3)])
qed

section \<open>Evaluation of closed examples\<close>

lemmas hyst_eval = Hysteresis_of_def Hysteresis_def hyst_pixel_def hyst_try_def getitem_def
  setitem_def norm_index_def shape_def hyst_neighbours_def

section \<open>Double threshold: the pixel equal to the high threshold\<close>

text \<open>
  Claim C1 says that the Strong pixels of DoubleThreshold are exactly those with a value
  of at least \<open>High\<close>, the pixel equal to \<open>High\<close> included. On the image \<open>[[50, 100]]\<close>
  with ratios 1/4 and 1/2 the thresholds are \<open>Low = 25\<close> and \<open>High = 50\<close>; the pixel of
  value 50 is written Strong and then overwritten with Weak, so the result holds 70 there.
\<close>

theorem DoubleThreshold_at_high:
  "DoubleThreshold [[50, 100]] (1/4) (1/2) 70 = Inr [[70, 255]]"
  by (simp add: DoubleThreshold_def amax_def shape_def zeros_def np_where_def assign_at_def)

section \<open>Hysteresis: one pass in raster order\<close>

text \<open>
  Examples of one pass. In the first array the seed is followed by three Weak pixels in
  raster order, and all three are promoted: each sees the promotion of the one before
  it. In the other four the chain of three Weak pixels runs against the raster order
  (along a row, along a column, along each diagonal) towards the only Strong pixel: only
  the Weak pixel next to the seed is promoted, the other two become Background.
\<close>

lemma Hysteresis_chain_examples:
  "Hysteresis_of [[0, 0, 0, 0, 0, 0], [0, 255, 70, 70, 70, 0], [0, 0, 0, 0, 0, 0]] 70 255
     = Inr [[0, 0, 0, 0, 0, 0], [0, 255, 255, 255, 255, 0], [0, 0, 0, 0, 0, 0]]
   \<and> Hysteresis_of [[0, 0, 0, 0, 0, 0], [0, 70, 70, 70, 255, 0], [0, 0, 0, 0, 0, 0]] 70 255
     = Inr [[0, 0, 0, 0, 0, 0], [0, 0, 0, 255, 255, 0], [0, 0, 0, 0, 0, 0]]
   \<and> Hysteresis_of [[0, 0, 0], [0, 70, 0], [0, 70, 0], [0, 70, 0], [0, 255, 0], [0, 0, 0]] 70 255
     = Inr [[0, 0, 0], [0, 0, 0], [0, 0, 0], [0, 255, 0], [0, 255, 0], [0, 0, 0]]
   \<and> Hysteresis_of [[0, 0, 0, 0, 0, 0], [0, 70, 0, 0, 0, 0], [0, 0, 70, 0, 0, 0],
                    [0, 0, 0, 70, 0, 0], [0, 0, 0, 0, 255, 0], [0, 0, 0, 0, 0, 0]] 70 255
     = Inr [[0, 0, 0, 0, 0, 0], [0, 0, 0, 0, 0, 0], [0, 0, 0, 0, 0, 0],
            [0, 0, 0, 255, 0, 0], [0, 0, 0, 0, 255, 0], [0, 0, 0, 0, 0, 0]]
   \<and> Hysteresis_of [[0, 0, 0, 0, 0, 0], [0, 0, 0, 0, 70, 0], [0, 0, 0, 70, 0, 0],
                    [0, 0, 70, 0, 0, 0], [0, 255, 0, 0, 0, 0], [0, 0, 0, 0, 0, 0]] 70 255
     = Inr [[0, 0, 0, 0, 0, 0], [0, 0, 0, 0, 0, 0], [0, 0, 0, 0, 0, 0],
            [0, 0, 255, 0, 0, 0], [0, 255, 0, 0, 0, 0], [0, 0, 0, 0, 0, 0]]"
  by (simp add: hyst_eval)




section \<open>The pipeline on an all-zero image: the border\<close>

text \<open>
  Claim C3, as stated, says that the final grid of \<open>canny_edge\<close> is all Background for an
  all-zero image. For the black image of 2 by 2 pixels the gradient arrays are 4 by 4 and
  zero, both thresholds are 0, DoubleThreshold writes 70 everywhere, and Hysteresis
  clears the four interior pixels only: the border keeps 70.
\<close>

theorem canny_edge_zero_image_counterexample:
  "canny_edge rgb2gray no_smoothing [[(0, 0, 0), (0, 0, 0)], [(0, 0, 0), (0, 0, 0)]]
     = Inr [[70, 70, 70, 70], [70, 0, 0, 70], [70, 0, 0, 70], [70, 70, 70, 70]]"
proof -
  have "canny_edge rgb2gray no_smoothing [[(0, 0, 0), (0, 0, 0)], [(0, 0, 0), (0, 0, 0)]]
          = Hysteresis_of (uniform (2 + 2) (2 + 2) 70) 70 255"
    by (rule canny_edge_zeros [where cvtColor = rgb2gray and GaussianFilter = no_smoothing])
       (simp_all add: rgb2gray_def no_smoothing_def zeros_def numeral_2_eq_2)
  also have "\<dots> = Inr [[70, 70, 70, 70], [70, 0, 0, 70], [70, 0, 0, 70], [70, 70, 70, 70]]"
    by (simp add: uniform_def numeral_eq_Suc hyst_eval)
  finally show ?thesis .
qed

text \<open>
  Claim C3, amended: for an image whose colour conversion is the all-zero \<open>M \<times> N\<close> array
  (\<open>M, N > 0\<close>), with a smoothing filter that returns that array unchanged, \<open>canny_edge\<close>
  returns a grid of \<open>M + 2\<close> rows and \<open>N + 2\<close> columns that is not all Background: no pixel
  on its outermost rows and columns is 0.
\<close>

theorem canny_edge_zero_image:
  assumes "cvtColor img = zeros M N" "GaussianFilter (zeros M N) 3 9 = zeros M N"
    and "0 < M" "0 < N"
  shows "\<exists>E. canny_edge cvtColor GaussianFilter img = Inr E \<and> is_grid (M + 2) (N + 2) E
           \<and> (\<forall>i<M + 2. \<forall>j<N + 2. border (M + 2) (N + 2) i j \<longrightarrow> E ! i ! j \<noteq> 0)"
proof -
  from Hysteresis_of_uniform [of 70 255 "M + 2" "N + 2"]
  obtain E where E: "Hysteresis_of (uniform (M + 2) (N + 2) 70) 70 255 = Inr E"
    "is_grid (M + 2) (N + 2) E"
    "\<forall>i<M + 2. \<forall>j<N + 2. E ! i ! j = (if border (M + 2) (N + 2) i j then 70 else 0)"
    by auto
  then show ?thesis
    by (simp add: canny_edge_zeros
          [where cvtColor = cvtColor and GaussianFilter = GaussianFilter and img = img, OF assms])
qed

theorem canny_edge_zero_image_witness:
  "rgb2gray [[(0, 0, 0), (0, 0, 0)], [(0, 0, 0), (0, 0, 0)]] = zeros 2 2
   \<and> no_smoothing (zeros 2 2) 3 9 = zeros 2 2
   \<and> border 4 4 0 1
   \<and> (\<exists>E. canny_edge rgb2gray no_smoothing [[(0, 0, 0), (0, 0, 0)], [(0, 0, 0), (0, 0, 0)]]
             = Inr E
          \<and> is_grid 4 4 E \<and> E ! 0 ! 1 \<noteq> 0)"
proof -
  let ?img = "[[(0, 0, 0), (0, 0, 0)], [(0, 0, 0), (0, 0, 0)]] :: (real \<times> real \<times> real) list list"
  have a: "rgb2gray ?img = zeros 2 2" "no_smoothing (zeros 2 2) 3 9 = zeros 2 2"
    by (simp_all add: rgb2gray_def no_smoothing_def zeros_def numeral_2_eq_2)
  have b: "border 4 4 0 1" by (simp add: border_def)
  have four: "(2::nat) + 2 = 4" by simp
  have "\<exists>E. canny_edge rgb2gray no_smoothing ?img = Inr E \<and> is_grid 4 4 E
          \<and> (\<forall>i<4. \<forall>j<4. border 4 4 i j \<longrightarrow> E ! i ! j \<noteq> 0)"
    using canny_edge_zero_image
         [where cvtColor = rgb2gray and GaussianFilter = no_smoothing and M = 2 and N = 2,
            OF a zero_less_numeral zero_less_numeral]
    unfolding four .
  then obtain E where E: "canny_edge rgb2gray no_smoothing ?img = Inr E" "is_grid 4 4 E"
    and all: "\<forall>i<4. \<forall>j<4. border 4 4 i j \<longrightarrow> E ! i ! j \<noteq> 0"
    by blast
  from all have "border 4 4 0 1 \<longrightarrow> E ! 0 ! 1 \<noteq> 0" by simp
  with b have one: "E ! 0 ! 1 \<noteq> 0" by simp
  from a b E one show ?thesis by auto
qed

section \<open>Hysteresis: pixels that were Weak\<close>

text \<open>
  Claim C4, as stated, says that no pixel that was Weak stays Weak, border pixels
  included. The loops skip the outermost rows and columns: a Weak pixel in a corner of a
  3 by 3 array is still Weak after the pass.
\<close>

theorem Hysteresis_border_weak_stays:
  "Hysteresis_of [[70, 0, 0], [0, 0, 0], [0, 0, 0]] 70 255
     = Inr [[70, 0, 0], [0, 0, 0], [0, 0, 0]]"
  by (simp add: hyst_eval)

text \<open>
  Claim C4, amended: on every array, Hysteresis returns; every pixel that was Weak and is
  not on the outermost rows and columns is 0 or Strong afterwards, and every Weak pixel on
  the outermost rows and columns is still Weak.
\<close>

theorem Hysteresis_weak_resolved:
  assumes "is_grid M N (h r)"
  shows "\<exists>h'. Hysteresis r Weak Strong h = Inr (r, h')
           \<and> (\<forall>i<M. \<forall>j<N. h r ! i ! j = Weak \<longrightarrow>
                (if border M N i j then h' r ! i ! j = Weak
                 else h' r ! i ! j = 0 \<or> h' r ! i ! j = Strong))"
proof -
  let ?out = "hyst_steps Weak Strong (interior M N) (h r)"
  have "?out ! i ! j = h r ! i ! j" if "i < M" "j < N" "border M N i j" for i j
    using that by (intro hyst_steps_frame [OF assms]) (simp_all add: interior_not_border)
  moreover have "?out ! i ! j = 0 \<or> ?out ! i ! j = Strong"
    if "i < M" "j < N" "\<not> border M N i j" "h r ! i ! j = Weak" for i j
    using that by (intro hyst_steps_weak [OF assms]) (simp_all add: interior_not_border)
  ultimately show ?thesis
    by (simp add: Hysteresis_fold [where h = h and r = r, OF assms] hyst_fold_steps [OF assms])
qed

theorem Hysteresis_weak_resolved_witness:
  "is_grid 3 3 [[70, 70, 0], [0, 70, 255], [0, 0, 0]]
   \<and> \<not> border 3 3 1 1 \<and> border 3 3 0 1
   \<and> (\<exists>h'. Hysteresis 0 70 255 (\<lambda>_. [[70, 70, 0], [0, 70, 255], [0, 0, 0]]) = Inr (0, h')
          \<and> (h' 0 ! 1 ! 1 = 0 \<or> h' 0 ! 1 ! 1 = 255) \<and> h' 0 ! 0 ! 1 = 70)"
proof -
  let ?g = "[[70, 70, 0], [0, 70, 255], [0, 0, 0]] :: grid"
  have g: "is_grid 3 3 ((\<lambda>_. ?g) (0::nat))" by (simp add: is_grid_def)
  have b: "\<not> border 3 3 1 1" "border 3 3 0 1" by (simp_all add: border_def)
  from Hysteresis_weak_resolved [where h = "\<lambda>_. ?g" and r = 0, OF g, of 70 255]
  obtain h' where h': "Hysteresis 0 70 255 (\<lambda>_. ?g) = Inr (0, h')"
    and all: "\<forall>i<3. \<forall>j<3. ?g ! i ! j = 70 \<longrightarrow>
                (if border 3 3 i j then h' 0 ! i ! j = 70
                 else h' 0 ! i ! j = 0 \<or> h' 0 ! i ! j = 255)"
    by auto
  from all have "?g ! 1 ! 1 = 70 \<longrightarrow> (if border 3 3 1 1 then h' 0 ! 1 ! 1 = 70
                 else h' 0 ! 1 ! 1 = 0 \<or> h' 0 ! 1 ! 1 = 255)"
    by simp
  with b have one: "h' 0 ! 1 ! 1 = 0 \<or> h' 0 ! 1 ! 1 = 255" by simp
  from all have "?g ! 0 ! 1 = 70 \<longrightarrow> (if border 3 3 0 1 then h' 0 ! 0 ! 1 = 70
                 else h' 0 ! 0 ! 1 = 0 \<or> h' 0 ! 0 ! 1 = 255)"
    by simp
  with b have two: "h' 0 ! 0 ! 1 = 70" by simp
  from g b h' one two show ?thesis by auto
qed

section \<open>Sobel on a constant image\<close>

text \<open>
  Claim C5, as stated, says that the Sobel magnitude of a 4 by 4 constant image is zero at
  every pixel of the output. The output is the full convolution, 6 by 6; at its corner
  only one kernel entry lies over the image, and for the constant 1 the magnitude there
  is \<open>sqrt 2\<close>.
\<close>

theorem sobel_constant_border_nonzero:
  "magnitude_of (sobel_edge rgb2gray (Gray2D (replicate 4 (replicate 4 1))) False) ! 0 ! 0 \<noteq> 0"
  by (simp add: sobel_constant_grid)

text \<open>
  Claim C5, amended: the Sobel magnitude of a 4 by 4 image of constant value \<open>c\<close> is a
  6 by 6 array that is zero at the four pixels where the kernel lies wholly inside the
  image (rows 2 and 3, columns 2 and 3); at every other pixel it is zero only if \<open>c\<close> is 0.
\<close>

theorem sobel_constant_zero_inside:
  "is_grid 6 6 (magnitude_of (sobel_edge cvt (Gray2D (replicate 4 (replicate 4 c))) GetDirection))
   \<and> (\<forall>i<6. \<forall>j<6.
         magnitude_of (sobel_edge cvt (Gray2D (replicate 4 (replicate 4 c))) GetDirection) ! i ! j = 0
         \<longleftrightarrow> c = 0 \<or> (i \<in> {2, 3} \<and> j \<in> {2, 3}))"
  unfolding sobel_constant_grid
  by (simp add: is_grid_def numeral_eq_Suc less_Suc_eq all_conj_distrib)

theorem sobel_constant_zero_inside_witness:
  "is_grid 6 6 (magnitude_of (sobel_edge rgb2gray (Gray2D (replicate 4 (replicate 4 5))) False))
   \<and> magnitude_of (sobel_edge rgb2gray (Gray2D (replicate 4 (replicate 4 5))) False) ! 2 ! 3 = 0
   \<and> magnitude_of (sobel_edge rgb2gray (Gray2D (replicate 4 (replicate 4 5))) False) ! 1 ! 3 \<noteq> 0"
proof -
  let ?G = "magnitude_of (sobel_edge rgb2gray (Gray2D (replicate 4 (replicate 4 5))) False)"
  from sobel_constant_zero_inside [of rgb2gray 5 False]
  have g: "is_grid 6 6 ?G"
    and all: "\<forall>i<6. \<forall>j<6. ?G ! i ! j = 0 \<longleftrightarrow> (5::real) = 0 \<or> (i \<in> {2, 3} \<and> j \<in> {2, 3})"
    by simp_all
  from all have "?G ! 2 ! 3 = 0 \<longleftrightarrow> (5::real) = 0 \<or> ((2::nat) \<in> {2, 3} \<and> (3::nat) \<in> {2, 3})"
    by simp
  then have one: "?G ! 2 ! 3 = 0" by simp
  from all have "?G ! 1 ! 3 = 0 \<longleftrightarrow> (5::real) = 0 \<or> ((1::nat) \<in> {2, 3} \<and> (3::nat) \<in> {2, 3})"
    by simp
  then have two: "?G ! 1 ! 3 \<noteq> 0" by simp
  from g one two show ?thesis by simp
qed

section \<open>Full convolution: shapes and zero padding\<close>

text \<open>
  Claim C6: for a non-empty \<open>M \<times> N\<close> single-channel image and two kernels of size
  \<open>Kh \<times> Kw\<close>, \<open>apply_kernel\<close> returns a magnitude array and two component arrays that
  all have \<open>M + Kh - 1\<close> rows of \<open>N + Kw - 1\<close> columns, the two components with the same
  shape. Each component entry is the sum over the kernel positions that lie over the
  image only (the positions that overhang the border contribute 0), and each magnitude
  entry is the Euclidean norm of the two component entries at the same index.
\<close>

theorem apply_kernel_full_mode:
  assumes "is_grid M N gray" "0 < M" "0 < N"
    and "is_grid Kh Kw hk" "is_grid Kh Kw vk" "0 < Kh" "0 < Kw"
  shows "\<exists>mag he ve.
           apply_kernel cvtColor (Gray2D gray) hk vk True = MagEdges mag he ve
         \<and> apply_kernel cvtColor (Gray2D gray) hk vk False = Mag mag
         \<and> is_grid (M + Kh - 1) (N + Kw - 1) mag
         \<and> is_grid (M + Kh - 1) (N + Kw - 1) he
         \<and> is_grid (M + Kh - 1) (N + Kw - 1) ve
         \<and> shape he = shape ve
         \<and> (\<forall>i<M + Kh - 1. \<forall>j<N + Kw - 1.
               he ! i ! j = (\<Sum>p\<leftarrow>overlap Kh M i. \<Sum>q\<leftarrow>overlap Kw N j.
                               hk ! p ! q * gray ! (i - p) ! (j - q))
             \<and> ve ! i ! j = (\<Sum>p\<leftarrow>overlap Kh M i. \<Sum>q\<leftarrow>overlap Kw N j.
                               vk ! p ! q * gray ! (i - p) ! (j - q))
             \<and> mag ! i ! j = sqrt ((he ! i ! j) ^ 2 + (ve ! i ! j) ^ 2))"
proof -
  let ?he = "convolve2d gray hk" and ?ve = "convolve2d gray vk"
  let ?mag = "elementwise (\<lambda>h v. sqrt (h ^ 2 + v ^ 2)) ?he ?ve"
  have he: "is_grid (M + Kh - 1) (N + Kw - 1) ?he"
    by (rule convolve2d_shape [OF assms(1,2,4,6)])
  have ve: "is_grid (M + Kh - 1) (N + Kw - 1) ?ve"
    by (rule convolve2d_shape [OF assms(1,2,5,6)])
  have pos: "0 < M + Kh - 1" using assms(2,6) by simp
  have "shape ?he = shape ?ve"
    by (simp add: is_grid_shape [OF he pos] is_grid_shape [OF ve pos])
  moreover have "is_grid (M + Kh - 1) (N + Kw - 1) ?mag"
    by (rule is_grid_elementwise [OF he ve])
  moreover have "\<forall>i<M + Kh - 1. \<forall>j<N + Kw - 1.
        ?he ! i ! j = (\<Sum>p\<leftarrow>overlap Kh M i. \<Sum>q\<leftarrow>overlap Kw N j. hk ! p ! q * gray ! (i - p) ! (j - q))
      \<and> ?ve ! i ! j = (\<Sum>p\<leftarrow>overlap Kh M i. \<Sum>q\<leftarrow>overlap Kw N j. vk ! p ! q * gray ! (i - p) ! (j - q))
      \<and> ?mag ! i ! j = sqrt ((?he ! i ! j) ^ 2 + (?ve ! i ! j) ^ 2)"
    by (intro allI impI conjI convolve2d_overlap [OF assms(1,2,4,6)]
          convolve2d_overlap [OF assms(1,2,5,6)] elementwise_nth [OF he ve])
  ultimately show ?thesis
    using he ve by (simp add: apply_kernel_def Let_def)
qed

theorem apply_kernel_full_mode_witness:
  "is_grid 2 2 [[1, 2], [3, 4]] \<and> is_grid 2 2 [[1, 0], [0, -1]] \<and> is_grid 2 2 [[0, 1], [-1, 0]]
   \<and> (\<exists>mag he ve.
         apply_kernel rgb2gray (Gray2D [[1, 2], [3, 4]]) [[1, 0], [0, -1]] [[0, 1], [-1, 0]] True
           = MagEdges mag he ve
       \<and> is_grid 3 3 mag \<and> is_grid 3 3 he \<and> is_grid 3 3 ve \<and> shape he = shape ve)"
  using apply_kernel_full_mode
          [of 2 2 "[[1, 2], [3, 4]]" 2 2 "[[1, 0], [0, -1]]" "[[0, 1], [-1, 0]]" rgb2gray]
  by (auto simp: is_grid_def)

section \<open>Non-maximum suppression: bounded by the input, zero on the border\<close>

text \<open>
  Claim C7: for a magnitude array and a direction array of the same shape, the output of
  NonMaximumSuppression has that shape, each of its pixels is the input magnitude or 0,
  hence at most the input magnitude wherever that is not negative (a gradient magnitude
  never is), and it is 0 on the outermost rows and columns.
\<close>

theorem NonMaximumSuppression_bounded:
  assumes "is_grid M N Mg" "is_grid M N Dr" "i < M" "j < N"
  shows "is_grid M N (NonMaximumSuppression Mg Dr)
         \<and> (NonMaximumSuppression Mg Dr ! i ! j = Mg ! i ! j
            \<or> NonMaximumSuppression Mg Dr ! i ! j = 0)
         \<and> (0 \<le> Mg ! i ! j \<longrightarrow> NonMaximumSuppression Mg Dr ! i ! j \<le> Mg ! i ! j)
         \<and> (border M N i j \<longrightarrow> NonMaximumSuppression Mg Dr ! i ! j = 0)"
proof -
  let ?out = "nms_steps Mg (degrees Dr) (interior M N) (zeros M N)"
  have eq: "NonMaximumSuppression Mg Dr = ?out"
    by (rule NonMaximumSuppression_steps [OF assms(1,2)])
  have z: "zeros M N ! i ! j = 0" using assms(3,4) by (rule nth_zeros)
  have shape: "is_grid M N ?out" by (rule is_grid_nms_steps [OF is_grid_zeros])
  have keep: "?out ! i ! j = Mg ! i ! j \<or> ?out ! i ! j = 0"
    by (rule nms_steps_keep_or_zero [OF is_grid_zeros assms(3,4)]) (simp add: z)
  then have le: "0 \<le> Mg ! i ! j \<longrightarrow> ?out ! i ! j \<le> Mg ! i ! j" by auto
  have "?out ! i ! j = 0" if "border M N i j"
    using nms_steps_untouched [OF is_grid_zeros assms(3,4), of "interior M N" Mg "degrees Dr"]
      that assms(3,4) by (simp add: interior_not_border z)
  with shape keep le show ?thesis by (simp add: eq)
qed

theorem NonMaximumSuppression_bounded_witness:
  "is_grid 3 3 [[1, 2, 3], [4, 9, 6], [7, 8, 5]]
   \<and> is_grid 3 3 [[0, 0, 0], [0, 0, 0], [0, 0, 0]]
   \<and> (0::real) \<le> [[1, 2, 3], [4, 9, 6], [7, 8, 5]] ! 0 ! 1
   \<and> border 3 3 0 1
   \<and> is_grid 3 3 (NonMaximumSuppression [[1, 2, 3], [4, 9, 6], [7, 8, 5]]
                                         [[0, 0, 0], [0, 0, 0], [0, 0, 0]])
   \<and> NonMaximumSuppression [[1, 2, 3], [4, 9, 6], [7, 8, 5]]
                            [[0, 0, 0], [0, 0, 0], [0, 0, 0]] ! 0 ! 1 = 0
   \<and> NonMaximumSuppression [[1, 2, 3], [4, 9, 6], [7, 8, 5]]
                            [[0, 0, 0], [0, 0, 0], [0, 0, 0]] ! 0 ! 1 \<le> 2"
  using NonMaximumSuppression_bounded
          [of 3 3 "[[1, 2, 3], [4, 9, 6], [7, 8, 5]]" "[[0, 0, 0], [0, 0, 0], [0, 0, 0]]" 0 1]
  by (simp add: is_grid_def border_def)

section \<open>Hysteresis without Weak pixels\<close>

text \<open>
  Claim C8: on an array with no pixel equal to Weak, Hysteresis returns the reference it
  was given and leaves the store, and so the array, as it was.
\<close>

theorem Hysteresis_no_weak_identity:
  assumes "is_grid M N (h r)" and "list_all (list_all (\<lambda>v. v \<noteq> Weak)) (h r)"
  shows "Hysteresis r Weak Strong h = Inr (r, h)"
proof -
  from assms have "\<forall>i<M. \<forall>j<N. h r ! i ! j \<noteq> Weak"
    by (simp add: is_grid_def list_all_length)
  moreover have "\<forall>(p, q)\<in>set (interior M N). p < M \<and> q < N"
    by (auto simp: set_interior)
  ultimately have "hyst_steps Weak Strong (interior M N) (h r) = h r"
    by (rule hyst_steps_no_weak [OF assms(1)])
  then show ?thesis
    by (simp add: Hysteresis_fold [where h = h and r = r, OF assms(1)] hyst_fold_steps [OF assms(1)])
qed

theorem Hysteresis_no_weak_identity_witness:
  "is_grid 3 3 [[0, 255, 0], [0, 255, 0], [0, 0, 0]]
   \<and> list_all (list_all (\<lambda>v. v \<noteq> 70)) [[0, 255, 0], [0, 255, 0], [0, 0, 0 :: real]]
   \<and> Hysteresis 0 70 255 (\<lambda>_. [[0, 255, 0], [0, 255, 0], [0, 0, 0]])
       = Inr (0, \<lambda>_. [[0, 255, 0], [0, 255, 0], [0, 0, 0]])"
  using Hysteresis_no_weak_identity
          [where h = "\<lambda>_. [[0, 255, 0], [0, 255, 0], [0, 0, 0]]" and r = 0 and M = 3 and N = 3
             and Weak = 70 and Strong = 255]
  by (simp add: is_grid_def)

section \<open>Hysteresis works in place\<close>

text \<open>
  Claim C9: Hysteresis works in place. It returns the reference it was given; every other
  array of the store is untouched; the array keeps its shape; and every pixel that is on
  the outermost rows and columns, or whose value is not Weak, keeps its value.
\<close>

theorem Hysteresis_in_place:
  assumes "is_grid M N (h r)"
  shows "\<exists>h'. Hysteresis r Weak Strong h = Inr (r, h')
           \<and> (\<forall>r'. r' \<noteq> r \<longrightarrow> h' r' = h r')
           \<and> is_grid M N (h' r)
           \<and> (\<forall>i<M. \<forall>j<N. border M N i j \<or> h r ! i ! j \<noteq> Weak \<longrightarrow> h' r ! i ! j = h r ! i ! j)"
proof -
  let ?out = "hyst_steps Weak Strong (interior M N) (h r)"
  have "?out ! i ! j = h r ! i ! j"
    if "i < M" "j < N" "border M N i j \<or> h r ! i ! j \<noteq> Weak" for i j
    using that by (intro hyst_steps_frame [OF assms]) (auto simp: interior_not_border)
  then show ?thesis
    by (simp add: Hysteresis_fold [where h = h and r = r, OF assms] hyst_fold_steps [OF assms]
        is_grid_hyst_steps [OF assms])
qed

theorem Hysteresis_in_place_witness:
  "is_grid 3 3 [[70, 70, 0], [0, 70, 255], [0, 0, 0]]
   \<and> border 3 3 0 1
   \<and> (\<exists>h'. Hysteresis 0 70 255 ((\<lambda>_. []) (0 := [[70, 70, 0], [0, 70, 255], [0, 0, 0]]))
              = Inr (0, h')
          \<and> h' 1 = [] \<and> is_grid 3 3 (h' 0) \<and> h' 0 ! 0 ! 1 = 70 \<and> h' 0 ! 1 ! 2 = 255)"
proof -
  let ?g = "[[70, 70, 0], [0, 70, 255], [0, 0, 0]] :: grid"
  let ?h = "(\<lambda>_. []) (0 := ?g) :: heap"
  have g: "is_grid 3 3 (?h 0)" by (simp add: is_grid_def)
  have b: "border 3 3 0 1" "border 3 3 1 2" by (simp_all add: border_def)
  from Hysteresis_in_place [where h = ?h and r = 0, OF g, of 70 255]
  obtain h' where h': "Hysteresis 0 70 255 ?h = Inr (0, h')"
    and other: "\<forall>r'. r' \<noteq> 0 \<longrightarrow> h' r' = ?h r'"
    and shape: "is_grid 3 3 (h' 0)"
    and all: "\<forall>i<3. \<forall>j<3. border 3 3 i j \<or> ?h 0 ! i ! j \<noteq> 70 \<longrightarrow> h' 0 ! i ! j = ?h 0 ! i ! j"
    by auto
  from other have one: "h' 1 = []" by simp
  from all b(1) have "h' 0 ! 0 ! 1 = ?h 0 ! 0 ! 1" by simp
  then have two: "h' 0 ! 0 ! 1 = 70" by simp
  from all b(2) have "h' 0 ! 1 ! 2 = ?h 0 ! 1 ! 2" by simp
  then have three: "h' 0 ! 1 ! 2 = 255" by simp
  from g b h' one shape two three show ?thesis by auto
qed

section \<open>No access of the interior loops is out of bounds\<close>

text \<open>
  Claim C10: for arrays of one shape \<open>M \<times> N\<close> and every position the interior loops
  visit (rows \<open>1 .. M-2\<close>, columns \<open>1 .. N-2\<close>), the pixel's own index and every
  neighbour index that NonMaximumSuppression (for any direction \<open>d\<close>) and Hysteresis
  compute lie within the bounds, without wrap-around; the body of each \<open>try\<close> returns
  without IndexError, for any state of the array written, and so does the test before
  the \<open>try\<close> of Hysteresis.
\<close>

theorem interior_accesses_in_bounds:
  assumes "is_grid M N Mg" "is_grid M N Dr" "is_grid M N S" "is_grid M N (h r)"
    and "row \<in> set [1..<M - 1]" "col \<in> set [1..<N - 1]"
  shows "inside M N (int row, int col)
         \<and> inside M N (fst (nms_neighbours d (int row) (int col)))
         \<and> inside M N (snd (nms_neighbours d (int row) (int col)))
         \<and> list_all (inside M N) (hyst_neighbours (int row) (int col))
         \<and> (\<exists>S'. nms_try Mg Dr S row col = Inr S')
         \<and> (\<exists>h'. hyst_try r Strong row col h = Inr h')
         \<and> (\<exists>h'. hyst_pixel r Weak Strong row col h = Inr h')"
proof -
  from assms(5,6) have rc: "1 \<le> row" "row + 1 < M" "1 \<le> col" "col + 1 < N" by auto
  then have "inside M N (int row, int col)" by (simp add: inside_def)
  moreover note nms_neighbours_inside [OF rc, of d] hyst_neighbours_inside [OF rc]
  moreover have "\<exists>S'. nms_try Mg Dr S row col = Inr S'"
    by (simp add: nms_try_in [OF assms(1-3) rc])
  moreover have "\<exists>h'. hyst_try r Strong row col h = Inr h'"
    by (simp add: hyst_try_in [where h = h and r = r, OF assms(4) rc])
  moreover have "\<exists>h'. hyst_pixel r Weak Strong row col h = Inr h'"
    by (simp add: hyst_pixel_in [where h = h and r = r, OF assms(4) rc])
  ultimately show ?thesis by simp
qed

theorem interior_accesses_in_bounds_witness:
  "is_grid 3 3 [[1, 2, 3], [4, 9, 6], [7, 8, 5]]
   \<and> 1 \<in> set [1..<3 - 1 :: nat]
   \<and> inside 3 3 (1, 1)
   \<and> list_all (inside 3 3) (hyst_neighbours 1 1)
   \<and> (\<exists>S'. nms_try [[1, 2, 3], [4, 9, 6], [7, 8, 5]] [[1, 2, 3], [4, 9, 6], [7, 8, 5]]
                    [[1, 2, 3], [4, 9, 6], [7, 8, 5]] 1 1 = Inr S')
   \<and> (\<exists>h'. hyst_try 0 255 1 1 (\<lambda>_. [[1, 2, 3], [4, 9, 6], [7, 8, 5]]) = Inr h')"
  using interior_accesses_in_bounds
          [where M = 3 and N = 3 and row = 1 and col = 1 and r = 0
             and h = "\<lambda>_. [[1, 2, 3], [4, 9, 6], [7, 8, 5]]"
             and Mg = "[[1, 2, 3], [4, 9, 6], [7, 8, 5]]"
             and Dr = "[[1, 2, 3], [4, 9, 6], [7, 8, 5]]"
             and S = "[[1, 2, 3], [4, 9, 6], [7, 8, 5]]" and Strong = 255]
  by (simp add: is_grid_def)

end
